theory Spec2Isabelle
  imports Main "HOL-Library.Word"
begin

section \<open>The OAuth application record of model/oauth.go\<close>

text \<open>
  A Go \<open>string\<close> is a sequence of bytes: it is modelled as \<open>string\<close> (a list of
  8-bit characters), so that \<open>len\<close> is \<open>length\<close> and \<open>==\<close> is equality of byte lists.
  An \<open>int64\<close> is a 64-bit word, read as two's complement by \<open>sint\<close>.
\<close>

type_synonym int64 = "64 word"

text \<open>
  \<open>StringArray\<close> is a named slice of strings. A slice is either \<open>nil\<close> or holds a
  list of elements; \<open>len\<close> and \<open>range\<close> treat \<open>nil\<close> as the empty list.
\<close>

datatype StringArray = NilArray | Array "string list"

fun elems :: "StringArray \<Rightarrow> string list" where
  "elems NilArray = []"
| "elems (Array xs) = xs"

record OAuthApp =
  Id :: string
  CreatorId :: string
  CreateAt :: int64
  UpdateAt :: int64
  ClientSecret :: string
  Name :: string
  Description :: string
  IconURL :: string
  CallbackUrls :: StringArray
  Homepage :: string
  IsTrusted :: bool

subsection \<open>What the record's methods take from outside oauth.go\<close>

text \<open>
  Modelled from the spec: \<open>NewLocAppError\<close> is not in oauth.go. The spec's
  \<open>Fail(errorCode, context)\<close> yields a structured error that carries the code and the
  context; the model keeps the arguments of the call (the place, the code and the
  context; the parameter table is \<open>nil\<close> at every call of oauth.go).
\<close>

datatype AppError = NewLocAppError (ErrWhere: string) (ErrId: string) (ErrDetails: string)

text \<open>
  \<open>utf8.DecodeRuneInString\<close> of Go's standard library: the first code point of a
  non-empty string and its width in bytes. An ill-formed or truncated sequence is
  \<open>RuneError\<close> (U+FFFD) of width 1.
\<close>

definition RuneError :: nat where
  "RuneError = 0xFFFD"

definition cont_byte :: "nat \<Rightarrow> bool" where
  "cont_byte b = (0x80 \<le> b \<and> b \<le> 0xBF)"

fun DecodeRune_bytes :: "nat list \<Rightarrow> nat \<times> nat" where
  "DecodeRune_bytes [] = (RuneError, 0)"
| "DecodeRune_bytes (b0 # bs) =
     (if b0 < 0x80 then (b0, 1)
      else if 0xC2 \<le> b0 \<and> b0 \<le> 0xDF then
        (case bs of
           b1 # _ \<Rightarrow> if cont_byte b1 then ((b0 - 0xC0) * 64 + (b1 - 0x80), 2) else (RuneError, 1)
         | _ \<Rightarrow> (RuneError, 1))
      else if 0xE0 \<le> b0 \<and> b0 \<le> 0xEF then
        (case bs of
           b1 # b2 # _ \<Rightarrow>
             if (if b0 = 0xE0 then 0xA0 else 0x80) \<le> b1 \<and> b1 \<le> (if b0 = 0xED then 0x9F else 0xBF)
                \<and> cont_byte b2
             then ((b0 - 0xE0) * 4096 + (b1 - 0x80) * 64 + (b2 - 0x80), 3)
             else (RuneError, 1)
         | _ \<Rightarrow> (RuneError, 1))
      else if 0xF0 \<le> b0 \<and> b0 \<le> 0xF4 then
        (case bs of
           b1 # b2 # b3 # _ \<Rightarrow>
             if (if b0 = 0xF0 then 0x90 else 0x80) \<le> b1 \<and> b1 \<le> (if b0 = 0xF4 then 0x8F else 0xBF)
                \<and> cont_byte b2 \<and> cont_byte b3
             then ((b0 - 0xF0) * 262144 + (b1 - 0x80) * 4096 + (b2 - 0x80) * 64 + (b3 - 0x80), 4)
             else (RuneError, 1)
         | _ \<Rightarrow> (RuneError, 1))
      else (RuneError, 1))"

definition DecodeRuneInString :: "string \<Rightarrow> nat \<times> nat" where
  "DecodeRuneInString s = DecodeRune_bytes (map of_char (take 4 s))"

text \<open>\<open>utf8.RuneCountInString\<close>: every ill-formed byte counts as one code point.\<close>

fun RuneCountInString :: "string \<Rightarrow> nat" where
  "RuneCountInString [] = 0"
| "RuneCountInString (c # cs) =
     Suc (RuneCountInString (drop (snd (DecodeRuneInString (c # cs)) - 1) cs))"

text \<open>
  \<open>fmt.Sprintf("%s", a)\<close> for a slice of strings: the elements, separated by one
  space, between square brackets.
\<close>

fun join_space :: "string list \<Rightarrow> string" where
  "join_space [] = []"
| "join_space [x] = x"
| "join_space (x # y # ys) = x @ '' '' @ join_space (y # ys)"

definition Sprintf_s :: "StringArray \<Rightarrow> string" where
  "Sprintf_s a = ''['' @ join_space (elems a) @ '']''"

subsection \<open>IsValid\<close>

text \<open>
  \<open>IsValidHttpUrl\<close> is defined outside oauth.go: it is the parameter \<open>isValidHttpUrl\<close>
  of the model. The result \<open>None\<close> is Go's \<open>nil\<close> error.
\<close>

fun IsValid_callbacks :: "(string \<Rightarrow> bool) \<Rightarrow> string list \<Rightarrow> AppError option" where
  "IsValid_callbacks isValidHttpUrl [] = None"
| "IsValid_callbacks isValidHttpUrl (callback # rest) =
     (if \<not> isValidHttpUrl callback
      then Some (NewLocAppError ''OAuthApp.IsValid'' ''model.oauth.is_valid.callback.app_error'' '''')
      else IsValid_callbacks isValidHttpUrl rest)"

definition IsValid :: "(string \<Rightarrow> bool) \<Rightarrow> OAuthApp \<Rightarrow> AppError option" where
  "IsValid isValidHttpUrl a =
    (if length (Id a) \<noteq> 26 then
       Some (NewLocAppError ''OAuthApp.IsValid'' ''model.oauth.is_valid.app_id.app_error'' '''')
     else if CreateAt a = 0 then
       Some (NewLocAppError ''OAuthApp.IsValid'' ''model.oauth.is_valid.create_at.app_error''
              (''app_id='' @ Id a))
     else if UpdateAt a = 0 then
       Some (NewLocAppError ''OAuthApp.IsValid'' ''model.oauth.is_valid.update_at.app_error''
              (''app_id='' @ Id a))
     else if length (CreatorId a) \<noteq> 26 then
       Some (NewLocAppError ''OAuthApp.IsValid'' ''model.oauth.is_valid.creator_id.app_error''
              (''app_id='' @ Id a))
     else if length (ClientSecret a) = 0 \<or> length (ClientSecret a) > 128 then
       Some (NewLocAppError ''OAuthApp.IsValid'' ''model.oauth.is_valid.client_secret.app_error''
              (''app_id='' @ Id a))
     else if length (Name a) = 0 \<or> length (Name a) > 64 then
       Some (NewLocAppError ''OAuthApp.IsValid'' ''model.oauth.is_valid.name.app_error''
              (''app_id='' @ Id a))
     else if length (elems (CallbackUrls a)) = 0 \<or> length (Sprintf_s (CallbackUrls a)) > 1024 then
       Some (NewLocAppError ''OAuthApp.IsValid'' ''model.oauth.is_valid.callback.app_error''
              (''app_id='' @ Id a))
     else case IsValid_callbacks isValidHttpUrl (elems (CallbackUrls a)) of
       Some err \<Rightarrow> Some err
     | None \<Rightarrow>
        if length (Homepage a) = 0 \<or> length (Homepage a) > 256 \<or> \<not> isValidHttpUrl (Homepage a) then
          Some (NewLocAppError ''OAuthApp.IsValid'' ''model.oauth.is_valid.homepage.app_error''
                 (''app_id='' @ Id a))
        else if RuneCountInString (Description a) > 512 then
          Some (NewLocAppError ''OAuthApp.IsValid'' ''model.oauth.is_valid.description.app_error''
                 (''app_id='' @ Id a))
        else if length (IconURL a) > 0
                \<and> (length (IconURL a) > 512 \<or> \<not> isValidHttpUrl (IconURL a)) then
          Some (NewLocAppError ''OAuthApp.IsValid'' ''model.oauth.is_valid.icon_url.app_error''
                 (''app_id='' @ Id a))
        else None)"

subsection \<open>PreSave, PreUpdate, Etag, Sanitize, IsValidRedirectURL\<close>

text \<open>
  \<open>NewId\<close> and \<open>GetMillis\<close> are defined outside oauth.go and read the world (a random
  source, the clock): each is a parameter that takes the state of the world \<open>'w\<close> and
  returns its result with the next state. The methods mutate the record in place: the
  model returns the updated record.
\<close>

definition PreSave ::
  "('w \<Rightarrow> string \<times> 'w) \<Rightarrow> ('w \<Rightarrow> int64 \<times> 'w) \<Rightarrow> OAuthApp \<Rightarrow> 'w \<Rightarrow> OAuthApp \<times> 'w" where
  "PreSave newId getMillis a w =
    (let (a1, w1) = (if Id a = '''' then (let (i, w') = newId w in (a\<lparr>Id := i\<rparr>, w')) else (a, w));
         (a2, w2) = (if ClientSecret a1 = ''''
                     then (let (s, w') = newId w1 in (a1\<lparr>ClientSecret := s\<rparr>, w')) else (a1, w1));
         (t, w3) = getMillis w2;
         a3 = a2\<lparr>CreateAt := t\<rparr>
     in (a3\<lparr>UpdateAt := CreateAt a3\<rparr>, w3))"

definition PreUpdate :: "('w \<Rightarrow> int64 \<times> 'w) \<Rightarrow> OAuthApp \<Rightarrow> 'w \<Rightarrow> OAuthApp \<times> 'w" where
  "PreUpdate getMillis a w = (let (t, w') = getMillis w in (a\<lparr>UpdateAt := t\<rparr>, w'))"

text \<open>
  The variadic \<open>Etag\<close> function is defined outside oauth.go: it is the parameter
  \<open>computeEtag\<close>, applied to the two parts the method passes.
\<close>

definition Etag :: "(string \<Rightarrow> int64 \<Rightarrow> string) \<Rightarrow> OAuthApp \<Rightarrow> string" where
  "Etag computeEtag a = computeEtag (Id a) (UpdateAt a)"

definition Sanitize :: "OAuthApp \<Rightarrow> OAuthApp" where
  "Sanitize a = a\<lparr>ClientSecret := ''''\<rparr>"

fun IsValidRedirectURL_loop :: "string list \<Rightarrow> string \<Rightarrow> bool" where
  "IsValidRedirectURL_loop [] url = False"
| "IsValidRedirectURL_loop (u # us) url = (if u = url then True else IsValidRedirectURL_loop us url)"

definition IsValidRedirectURL :: "OAuthApp \<Rightarrow> string \<Rightarrow> bool" where
  "IsValidRedirectURL a url = IsValidRedirectURL_loop (elems (CallbackUrls a)) url"

subsection \<open>The rules of validation as the specification lists them\<close>

text \<open>
  The specification (section 4.1) gives validation as eleven rules, checked in a fixed
  order, of which the first one violated decides the failure. \<open>validate_rules\<close> is
  that list, written from the specification's words: each rule with the failure it
  reports. \<open>first_failure\<close> reads such a list the way the specification says.
\<close>

fun first_failure :: "(bool \<times> 'e) list \<Rightarrow> 'e option" where
  "first_failure [] = None"
| "first_failure ((holds, failure) # rules) =
     (if \<not> holds then Some failure else first_failure rules)"

definition Fail :: "string \<Rightarrow> string \<Rightarrow> AppError" where
  "Fail code ctx = NewLocAppError ''OAuthApp.IsValid'' code ctx"

definition validate_rules :: "(string \<Rightarrow> bool) \<Rightarrow> OAuthApp \<Rightarrow> (bool \<times> AppError) list" where
  "validate_rules validUrl a =
    [(length (Id a) = 26, Fail ''model.oauth.is_valid.app_id.app_error'' ''''),
     (CreateAt a \<noteq> 0, Fail ''model.oauth.is_valid.create_at.app_error'' (''app_id='' @ Id a)),
     (UpdateAt a \<noteq> 0, Fail ''model.oauth.is_valid.update_at.app_error'' (''app_id='' @ Id a)),
     (length (CreatorId a) = 26,
        Fail ''model.oauth.is_valid.creator_id.app_error'' (''app_id='' @ Id a)),
     (1 \<le> length (ClientSecret a) \<and> length (ClientSecret a) \<le> 128,
        Fail ''model.oauth.is_valid.client_secret.app_error'' (''app_id='' @ Id a)),
     (1 \<le> length (Name a) \<and> length (Name a) \<le> 64,
        Fail ''model.oauth.is_valid.name.app_error'' (''app_id='' @ Id a)),
     (elems (CallbackUrls a) \<noteq> [] \<and> length (Sprintf_s (CallbackUrls a)) \<le> 1024,
        Fail ''model.oauth.is_valid.callback.app_error'' (''app_id='' @ Id a)),
     (list_all validUrl (elems (CallbackUrls a)),
        Fail ''model.oauth.is_valid.callback.app_error'' ''''),
     (1 \<le> length (Homepage a) \<and> length (Homepage a) \<le> 256 \<and> validUrl (Homepage a),
        Fail ''model.oauth.is_valid.homepage.app_error'' (''app_id='' @ Id a)),
     (RuneCountInString (Description a) \<le> 512,
        Fail ''model.oauth.is_valid.description.app_error'' (''app_id='' @ Id a)),
     (IconURL a \<noteq> '''' \<longrightarrow> length (IconURL a) \<le> 512 \<and> validUrl (IconURL a),
        Fail ''model.oauth.is_valid.icon_url.app_error'' (''app_id='' @ Id a))]"

section \<open>Serialization: Go's encoding/json on the record\<close>

text \<open>
  \<open>ToJson\<close> and the three \<open>FromJson\<close> functions of oauth.go hand the record to
  \<open>json.Marshal\<close> and to \<open>json.Decoder.Decode\<close> of Go's standard library, and
  only turn an error into the empty string or into \<open>nil\<close>. What they compute is
  what the library computes, so the library is modelled here, for the types oauth.go
  gives it: strings, \<open>int64\<close>, \<open>bool\<close>, a slice of strings, the struct with its
  field tags, pointers to the struct, and a map and a slice of such pointers. The model
  follows the library's documented behaviour: the encoder's escapes and its coercion of
  strings to valid UTF-8; the decoder's grammar of values, white space, escapes and
  surrogate pairs; the matching of keys to fields up to case; \<open>null\<close> that leaves
  a field as it is; the refusal of values of the wrong type. A reader is the
  sequence of bytes it delivers.
\<close>

abbreviation dquote :: char where
  "dquote \<equiv> CHR 0x22"

abbreviation backslash :: char where
  "backslash \<equiv> CHR 0x5C"

subsection \<open>Encoding\<close>

text \<open>
  A string is written between double quotes. The encoder escapes the quote, the
  backslash, the control characters (backspace, form feed, line feed, carriage return
  and tab by their short escapes) and, for HTML, \<open><\<close>, \<open>>\<close> and \<open>&\<close>; in place of a
  byte that does not begin a well-formed UTF-8 sequence it writes the three bytes of
  U+FFFD; it writes the separators U+2028 and U+2029 as their escapes, and any other
  well-formed sequence as it is.
\<close>

definition hex :: "nat \<Rightarrow> char" where
  "hex n = ''0123456789abcdef'' ! (n mod 16)"

definition htmlSafeSet :: "nat \<Rightarrow> bool" where
  "htmlSafeSet b = (0x20 \<le> b \<and> b < 0x80 \<and> b \<noteq> 0x22 \<and> b \<noteq> 0x26 \<and> b \<noteq> 0x3C \<and> b \<noteq> 0x3E \<and> b \<noteq> 0x5C)"

definition escape_byte :: "char \<Rightarrow> string" where
  "escape_byte c =
     (if c = backslash \<or> c = dquote then [backslash, c]
      else if c = CHR 0x08 then [backslash, CHR ''b'']
      else if c = CHR 0x0C then [backslash, CHR ''f'']
      else if c = CHR 0x0A then [backslash, CHR ''n'']
      else if c = CHR 0x0D then [backslash, CHR ''r'']
      else if c = CHR 0x09 then [backslash, CHR ''t'']
      else [backslash, CHR ''u'', CHR ''0'', CHR ''0'', hex (of_char c div 16), hex (of_char c mod 16)])"

fun encode_runes :: "string \<Rightarrow> string" where
  "encode_runes [] = []"
| "encode_runes (c # cs) =
     (if (of_char c :: nat) < 0x80 then
        (if htmlSafeSet (of_char c) then [c] else escape_byte c) @ encode_runes cs
      else let (r, size) = DecodeRuneInString (c # cs) in
        if r = RuneError \<and> size = 1 then
          [CHR 0xEF, CHR 0xBF, CHR 0xBD] @ encode_runes cs
        else if r = 0x2028 \<or> r = 0x2029 then
          [backslash, CHR ''u'', CHR ''2'', CHR ''0'', CHR ''2'', hex (r mod 16)]
            @ encode_runes (drop (size - 1) cs)
        else take size (c # cs) @ encode_runes (drop (size - 1) cs))"

definition encodeString :: "string \<Rightarrow> string" where
  "encodeString s = [dquote] @ encode_runes s @ [dquote]"

fun digits :: "nat \<Rightarrow> string" where
  "digits n = (if n < 10 then [char_of (48 + n)] else digits (n div 10) @ [char_of (48 + n mod 10)])"

definition FormatInt :: "int \<Rightarrow> string" where
  "FormatInt i = (if i < 0 then CHR ''-'' # digits (nat (- i)) else digits (nat i))"

fun join_comma :: "string list \<Rightarrow> string" where
  "join_comma [] = []"
| "join_comma [x] = x"
| "join_comma (x # y # ys) = x @ '','' @ join_comma (y # ys)"

definition encodeStringArray :: "StringArray \<Rightarrow> string" where
  "encodeStringArray a =
     (case a of NilArray \<Rightarrow> ''null''
      | Array xs \<Rightarrow> ''['' @ join_comma (map encodeString xs) @ '']'')"

definition encodeBool :: "bool \<Rightarrow> string" where
  "encodeBool b = (if b then ''true'' else ''false'')"

definition encodeKey :: "string \<Rightarrow> string" where
  "encodeKey k = [dquote] @ k @ [dquote] @ '':''"

text \<open>
  \<open>json.Marshal\<close> on a pointer to the record: the fields in the order of their
  declaration, each under the name of its tag. No field of the record has a type that
  the encoder refuses, so the result is never an error; \<open>ToJson\<close> keeps the branch
  that the source has for one.
\<close>

datatype MarshalError = UnsupportedValueError

definition Marshal :: "OAuthApp \<Rightarrow> MarshalError + string" where
  "Marshal a = Inr
     (''{'' @ encodeKey ''id'' @ encodeString (Id a)
      @ '','' @ encodeKey ''creator_id'' @ encodeString (CreatorId a)
      @ '','' @ encodeKey ''create_at'' @ FormatInt (sint (CreateAt a))
      @ '','' @ encodeKey ''update_at'' @ FormatInt (sint (UpdateAt a))
      @ '','' @ encodeKey ''client_secret'' @ encodeString (ClientSecret a)
      @ '','' @ encodeKey ''name'' @ encodeString (Name a)
      @ '','' @ encodeKey ''description'' @ encodeString (Description a)
      @ '','' @ encodeKey ''icon_url'' @ encodeString (IconURL a)
      @ '','' @ encodeKey ''callback_urls'' @ encodeStringArray (CallbackUrls a)
      @ '','' @ encodeKey ''homepage'' @ encodeString (Homepage a)
      @ '','' @ encodeKey ''is_trusted'' @ encodeBool (IsTrusted a)
      @ ''}'')"

definition ToJson :: "OAuthApp \<Rightarrow> string" where
  "ToJson a = (case Marshal a of Inl err \<Rightarrow> '''' | Inr b \<Rightarrow> b)"

subsection \<open>Decoding: the syntax\<close>

datatype json =
    JNull | JBool bool | JNumber string | JString string
  | JArray "json list" | JObject "(string \<times> json) list"

text \<open>
  The errors of the decoder: \<open>EOF\<close> for a stream with no value, \<open>ErrUnexpectedEOF\<close>
  for a stream that ends within a value, \<open>SyntaxError\<close> for a byte the grammar does not
  allow, \<open>UnmarshalTypeError\<close> for a value that does not fit the Go type. The parser
  below recurses on a counter: \<open>OutOfFuel\<close> is the result of a counter that is too
  small, and \<open>Decode_value\<close> starts with one for which it does not occur
  (\<open>Decode_value_fuel\<close>).
\<close>

datatype DecodeError = EOF | ErrUnexpectedEOF | SyntaxError | UnmarshalTypeError | OutOfFuel

definition isSpace :: "char \<Rightarrow> bool" where
  "isSpace c = (c = CHR '' '' \<or> c = CHR 0x09 \<or> c = CHR 0x0D \<or> c = CHR 0x0A)"

fun skip_space :: "string \<Rightarrow> string" where
  "skip_space [] = []"
| "skip_space (c # cs) = (if isSpace c then skip_space cs else c # cs)"

definition isDigit :: "char \<Rightarrow> bool" where
  "isDigit c = (0x30 \<le> (of_char c :: nat) \<and> (of_char c :: nat) \<le> 0x39)"

definition hex_val :: "char \<Rightarrow> nat option" where
  "hex_val c =
     (let b = of_char c :: nat in
      if 0x30 \<le> b \<and> b \<le> 0x39 then Some (b - 0x30)
      else if 0x61 \<le> b \<and> b \<le> 0x66 then Some (b - 0x61 + 10)
      else if 0x41 \<le> b \<and> b \<le> 0x46 then Some (b - 0x41 + 10)
      else None)"

text \<open>Four hexadecimal digits: their value, or the first thing that goes wrong.\<close>

fun hex4 :: "nat \<Rightarrow> nat \<Rightarrow> string \<Rightarrow> DecodeError + nat" where
  "hex4 0 acc s = Inr acc"
| "hex4 (Suc n) acc [] = Inl ErrUnexpectedEOF"
| "hex4 (Suc n) acc (c # cs) =
     (case hex_val c of None \<Rightarrow> Inl SyntaxError | Some h \<Rightarrow> hex4 n (acc * 16 + h) cs)"

text \<open>\<open>getu4\<close>: the value of an escape \<open>\uXXXX\<close> at the head of the string, if there is one.\<close>

definition getu4 :: "string \<Rightarrow> nat option" where
  "getu4 s =
     (case s of
        b # u # rest \<Rightarrow>
          if b = backslash \<and> u = CHR ''u'' then
            (case hex4 4 0 rest of Inr r \<Rightarrow> Some r | Inl _ \<Rightarrow> None)
          else None
      | _ \<Rightarrow> None)"

definition IsSurrogate :: "nat \<Rightarrow> bool" where
  "IsSurrogate r = (0xD800 \<le> r \<and> r < 0xE000)"

definition utf16_DecodeRune :: "nat \<Rightarrow> nat option \<Rightarrow> nat" where
  "utf16_DecodeRune r1 r2 =
     (case r2 of
        Some r2' \<Rightarrow>
          if 0xD800 \<le> r1 \<and> r1 < 0xDC00 \<and> 0xDC00 \<le> r2' \<and> r2' < 0xE000
          then (r1 - 0xD800) * 1024 + (r2' - 0xDC00) + 0x10000
          else RuneError
      | None \<Rightarrow> RuneError)"

definition EncodeRune :: "nat \<Rightarrow> string" where
  "EncodeRune r =
     (if r < 0x80 then [char_of r]
      else if r < 0x800 then [char_of (0xC0 + r div 64), char_of (0x80 + r mod 64)]
      else if 0x10FFFF < r \<or> (0xD800 \<le> r \<and> r \<le> 0xDFFF) then [CHR 0xEF, CHR 0xBF, CHR 0xBD]
      else if r < 0x10000 then
        [char_of (0xE0 + r div 4096), char_of (0x80 + (r div 64) mod 64), char_of (0x80 + r mod 64)]
      else
        [char_of (0xF0 + r div 262144), char_of (0x80 + (r div 4096) mod 64),
         char_of (0x80 + (r div 64) mod 64), char_of (0x80 + r mod 64)])"

definition simple_escape :: "char \<Rightarrow> char option" where
  "simple_escape e =
     (if e = dquote \<or> e = backslash \<or> e = CHR ''/'' then Some e
      else if e = CHR ''b'' then Some (CHR 0x08)
      else if e = CHR ''f'' then Some (CHR 0x0C)
      else if e = CHR ''n'' then Some (CHR 0x0A)
      else if e = CHR ''r'' then Some (CHR 0x0D)
      else if e = CHR ''t'' then Some (CHR 0x09)
      else None)"

definition prepend :: "string \<Rightarrow> DecodeError + (string \<times> string) \<Rightarrow> DecodeError + (string \<times> string)" where
  "prepend p r = (case r of Inl e \<Rightarrow> Inl e | Inr (s, rest) \<Rightarrow> Inr (p @ s, rest))"

text \<open>
  A string literal after its opening quote: the string it denotes and the input after
  the closing quote.
\<close>

fun scan_string :: "string \<Rightarrow> DecodeError + (string \<times> string)" where
  "scan_string [] = Inl ErrUnexpectedEOF"
| "scan_string (c # cs) =
     (if c = dquote then Inr ([], cs)
      else if c = backslash then
        (case cs of
           [] \<Rightarrow> Inl ErrUnexpectedEOF
         | e # es \<Rightarrow>
             if e = CHR ''u'' then
               (case hex4 4 0 es of
                  Inl err \<Rightarrow> Inl err
                | Inr rr \<Rightarrow>
                    if IsSurrogate rr then
                      (if utf16_DecodeRune rr (getu4 (drop 4 es)) \<noteq> RuneError
                       then prepend (EncodeRune (utf16_DecodeRune rr (getu4 (drop 4 es))))
                              (scan_string (drop 10 es))
                       else prepend (EncodeRune RuneError) (scan_string (drop 4 es)))
                    else prepend (EncodeRune rr) (scan_string (drop 4 es)))
             else
               (case simple_escape e of
                  None \<Rightarrow> Inl SyntaxError
                | Some d \<Rightarrow> prepend [d] (scan_string es)))
      else if (of_char c :: nat) < 0x20 then Inl SyntaxError
      else if (of_char c :: nat) < 0x80 then prepend [c] (scan_string cs)
      else prepend (EncodeRune (fst (DecodeRuneInString (c # cs))))
             (scan_string (drop (snd (DecodeRuneInString (c # cs)) - 1) cs)))"

fun span_digits :: "string \<Rightarrow> string \<times> string" where
  "span_digits [] = ([], [])"
| "span_digits (c # cs) =
     (if isDigit c then (let (ds, rest) = span_digits cs in (c # ds, rest)) else ([], c # cs))"

text \<open>At least one digit.\<close>

definition scan_digits1 :: "string \<Rightarrow> DecodeError + (string \<times> string)" where
  "scan_digits1 s =
     (case s of
        [] \<Rightarrow> Inl ErrUnexpectedEOF
      | c # cs \<Rightarrow> if isDigit c then Inr (span_digits (c # cs)) else Inl SyntaxError)"

definition scan_int_part :: "string \<Rightarrow> DecodeError + (string \<times> string)" where
  "scan_int_part s =
     (case s of
        [] \<Rightarrow> Inl ErrUnexpectedEOF
      | c # cs \<Rightarrow>
          if c = CHR ''0'' then Inr ([c], cs)
          else if isDigit c then Inr (span_digits (c # cs))
          else Inl SyntaxError)"

definition scan_frac :: "string \<Rightarrow> DecodeError + (string \<times> string)" where
  "scan_frac s =
     (case s of
        c # cs \<Rightarrow> if c = CHR ''.'' then prepend [c] (scan_digits1 cs) else Inr ([], s)
      | [] \<Rightarrow> Inr ([], s))"

definition scan_exp :: "string \<Rightarrow> DecodeError + (string \<times> string)" where
  "scan_exp s =
     (case s of
        c # cs \<Rightarrow>
          if c = CHR ''e'' \<or> c = CHR ''E'' then
            (case cs of
               d # ds \<Rightarrow>
                 if d = CHR ''+'' \<or> d = CHR ''-'' then prepend [c, d] (scan_digits1 ds)
                 else prepend [c] (scan_digits1 cs)
             | [] \<Rightarrow> Inl ErrUnexpectedEOF)
          else Inr ([], s)
      | [] \<Rightarrow> Inr ([], s))"

definition scan_number :: "string \<Rightarrow> DecodeError + (string \<times> string)" where
  "scan_number s =
     (let (sign, s1) = (case s of c # cs \<Rightarrow> if c = CHR ''-'' then ([c], cs) else ([], s) | [] \<Rightarrow> ([], s))
      in case scan_int_part s1 of
           Inl e \<Rightarrow> Inl e
         | Inr (ip, s2) \<Rightarrow>
             (case scan_frac s2 of
                Inl e \<Rightarrow> Inl e
              | Inr (fp, s3) \<Rightarrow>
                  (case scan_exp s3 of
                     Inl e \<Rightarrow> Inl e
                   | Inr (ep, s4) \<Rightarrow> Inr (sign @ ip @ fp @ ep, s4))))"

text \<open>The rest of a literal name (\<open>true\<close>, \<open>false\<close>, \<open>null\<close>) after its first letter.\<close>

fun scan_literal :: "string \<Rightarrow> json \<Rightarrow> string \<Rightarrow> DecodeError + (json \<times> string)" where
  "scan_literal [] v s = Inr (v, s)"
| "scan_literal (l # ls) v [] = Inl ErrUnexpectedEOF"
| "scan_literal (l # ls) v (c # cs) = (if c = l then scan_literal ls v cs else Inl SyntaxError)"

text \<open>
  The scanner of the library keeps the stack of the arrays and objects it is in, and
  refuses an opening bracket or brace that would make the stack higher than
  \<open>maxNestingDepth\<close>. The parser takes the height of the stack as its second argument.
\<close>

definition maxNestingDepth :: nat where
  "maxNestingDepth = 10000"

fun parse_value :: "nat \<Rightarrow> nat \<Rightarrow> string \<Rightarrow> DecodeError + (json \<times> string)"
  and parse_elems :: "nat \<Rightarrow> nat \<Rightarrow> json list \<Rightarrow> string \<Rightarrow> DecodeError + (json list \<times> string)"
  and parse_members ::
    "nat \<Rightarrow> nat \<Rightarrow> (string \<times> json) list \<Rightarrow> string \<Rightarrow> DecodeError + ((string \<times> json) list \<times> string)"
where
  "parse_value 0 dp s = Inl OutOfFuel"
| "parse_value (Suc n) dp s =
     (case skip_space s of
        [] \<Rightarrow> Inl ErrUnexpectedEOF
      | c # cs \<Rightarrow>
          if c = CHR ''{'' then
            (if maxNestingDepth \<le> dp then Inl SyntaxError
             else case skip_space cs of
               [] \<Rightarrow> Inl ErrUnexpectedEOF
             | d # ds \<Rightarrow>
                 if d = CHR ''}'' then Inr (JObject [], ds)
                 else (case parse_members n (Suc dp) [] (d # ds) of
                         Inl e \<Rightarrow> Inl e
                       | Inr (ms, rest) \<Rightarrow> Inr (JObject ms, rest)))
          else if c = CHR ''['' then
            (if maxNestingDepth \<le> dp then Inl SyntaxError
             else case skip_space cs of
               [] \<Rightarrow> Inl ErrUnexpectedEOF
             | d # ds \<Rightarrow>
                 if d = CHR '']'' then Inr (JArray [], ds)
                 else (case parse_elems n (Suc dp) [] (d # ds) of
                         Inl e \<Rightarrow> Inl e
                       | Inr (vs, rest) \<Rightarrow> Inr (JArray vs, rest)))
          else if c = dquote then
            (case scan_string cs of
               Inl e \<Rightarrow> Inl e
             | Inr (str, rest) \<Rightarrow> Inr (JString str, rest))
          else if c = CHR ''-'' \<or> isDigit c then
            (case scan_number (c # cs) of
               Inl e \<Rightarrow> Inl e
             | Inr (lit, rest) \<Rightarrow> Inr (JNumber lit, rest))
          else if c = CHR ''t'' then scan_literal ''rue'' (JBool True) cs
          else if c = CHR ''f'' then scan_literal ''alse'' (JBool False) cs
          else if c = CHR ''n'' then scan_literal ''ull'' JNull cs
          else Inl SyntaxError)"
| "parse_elems 0 dp acc s = Inl OutOfFuel"
| "parse_elems (Suc n) dp acc s =
     (case parse_value n dp s of
        Inl e \<Rightarrow> Inl e
      | Inr (v, rest) \<Rightarrow>
          (case skip_space rest of
             [] \<Rightarrow> Inl ErrUnexpectedEOF
           | c # cs \<Rightarrow>
               if c = CHR '','' then parse_elems n dp (acc @ [v]) cs
               else if c = CHR '']'' then Inr (acc @ [v], cs)
               else Inl SyntaxError))"
| "parse_members 0 dp acc s = Inl OutOfFuel"
| "parse_members (Suc n) dp acc s =
     (case skip_space s of
        [] \<Rightarrow> Inl ErrUnexpectedEOF
      | c # cs \<Rightarrow>
          if c \<noteq> dquote then Inl SyntaxError
          else
            (case scan_string cs of
               Inl e \<Rightarrow> Inl e
             | Inr (key, rest) \<Rightarrow>
                 (case skip_space rest of
                    [] \<Rightarrow> Inl ErrUnexpectedEOF
                  | d # ds \<Rightarrow>
                      if d \<noteq> CHR '':'' then Inl SyntaxError
                      else
                        (case parse_value n dp ds of
                           Inl e \<Rightarrow> Inl e
                         | Inr (v, rest2) \<Rightarrow>
                             (case skip_space rest2 of
                                [] \<Rightarrow> Inl ErrUnexpectedEOF
                              | x # xs \<Rightarrow>
                                  if x = CHR '','' then parse_members n dp (acc @ [(key, v)]) xs
                                  else if x = CHR ''}'' then Inr (acc @ [(key, v)], xs)
                                  else Inl SyntaxError)))))"

subsection \<open>Decoding: the values\<close>

fun digits_val :: "nat \<Rightarrow> string \<Rightarrow> nat" where
  "digits_val acc [] = acc"
| "digits_val acc (c # cs) = digits_val (acc * 10 + (of_char c - 48)) cs"

text \<open>
  \<open>strconv.ParseInt(lit, 10, 64)\<close> on a number literal of JSON: a literal with a
  fraction or an exponent, or outside the range of \<open>int64\<close>, is refused.
\<close>

definition ParseInt :: "string \<Rightarrow> int option" where
  "ParseInt lit =
     (let (neg, ds) = (case lit of c # cs \<Rightarrow> if c = CHR ''-'' then (True, cs) else (False, lit)
                        | [] \<Rightarrow> (False, lit))
      in if ds = [] \<or> \<not> list_all isDigit ds then None
         else let v = (if neg then - int (digits_val 0 ds) else int (digits_val 0 ds))
              in if - (2 ^ 63) \<le> v \<and> v < 2 ^ 63 then Some v else None)"

definition unmarshal_string :: "json \<Rightarrow> string \<Rightarrow> DecodeError + string" where
  "unmarshal_string j cur =
     (case j of JNull \<Rightarrow> Inr cur | JString s \<Rightarrow> Inr s | _ \<Rightarrow> Inl UnmarshalTypeError)"

definition unmarshal_int64 :: "json \<Rightarrow> int64 \<Rightarrow> DecodeError + int64" where
  "unmarshal_int64 j cur =
     (case j of
        JNull \<Rightarrow> Inr cur
      | JNumber lit \<Rightarrow>
          (case ParseInt lit of None \<Rightarrow> Inl UnmarshalTypeError | Some i \<Rightarrow> Inr (word_of_int i))
      | _ \<Rightarrow> Inl UnmarshalTypeError)"

definition unmarshal_bool :: "json \<Rightarrow> bool \<Rightarrow> DecodeError + bool" where
  "unmarshal_bool j cur =
     (case j of JNull \<Rightarrow> Inr cur | JBool b \<Rightarrow> Inr b | _ \<Rightarrow> Inl UnmarshalTypeError)"

text \<open>
  An array is decoded into the slice that the field holds, element by element: a
  string replaces the element, \<open>null\<close> leaves the element as it is. The slice is a
  window on an array that may be longer; an element beyond the length of the slice is
  taken from that array (when the slice grows, the new part of the array holds empty
  strings). So the elements are decoded against the \<open>slots\<close>: the elements of the
  slice followed by what the array holds after them. The slots after the last decoded
  element stay in the array. An empty array gives a new, empty slice, and \<open>null\<close>
  the \<open>nil\<close> slice.
\<close>

fun unmarshal_strings :: "json list \<Rightarrow> string list \<Rightarrow> DecodeError + string list" where
  "unmarshal_strings [] slots = Inr []"
| "unmarshal_strings (j # js) slots =
     (case unmarshal_string j (case slots of [] \<Rightarrow> '''' | x # xs \<Rightarrow> x) of
        Inl e \<Rightarrow> Inl e
      | Inr s \<Rightarrow>
          (case unmarshal_strings js (tl slots) of Inl e \<Rightarrow> Inl e | Inr ss \<Rightarrow> Inr (s # ss)))"

definition unmarshal_StringArray ::
  "json \<Rightarrow> StringArray \<times> string list \<Rightarrow> DecodeError + (StringArray \<times> string list)" where
  "unmarshal_StringArray j cur =
     (case j of
        JNull \<Rightarrow> Inr (NilArray, [])
      | JArray js \<Rightarrow>
          if js = [] then Inr (Array [], [])
          else
            (case unmarshal_strings js (elems (fst cur) @ snd cur) of
               Inl e \<Rightarrow> Inl e
             | Inr ss \<Rightarrow> Inr (Array ss, drop (length js) (elems (fst cur) @ snd cur)))
      | _ \<Rightarrow> Inl UnmarshalTypeError)"

text \<open>
  The names of the fields, from the struct tags. A key of the input names a field when
  it is the field's name, or else equal to it up to case, in the sense of Unicode's
  simple case folding: besides the ASCII capitals, the Kelvin sign U+212A folds to
  \<open>k\<close> and the long s U+017F to \<open>s\<close>.
\<close>

definition field_names :: "string list" where
  "field_names = [''id'', ''creator_id'', ''create_at'', ''update_at'', ''client_secret'', ''name'',
                  ''description'', ''icon_url'', ''callback_urls'', ''homepage'', ''is_trusted'']"

fun foldName :: "string \<Rightarrow> string" where
  "foldName [] = []"
| "foldName [c] =
     (if 0x41 \<le> (of_char c :: nat) \<and> (of_char c :: nat) \<le> 0x5A then [char_of (of_char c + 0x20 :: nat)] else [c])"
| "foldName (c # d # cs) =
     (if 0x41 \<le> (of_char c :: nat) \<and> (of_char c :: nat) \<le> 0x5A
      then char_of (of_char c + 0x20 :: nat) # foldName (d # cs)
      else if c = CHR 0xC5 \<and> d = CHR 0xBF then CHR ''s'' # foldName cs
      else if c = CHR 0xE2 \<and> d = CHR 0x84 \<and> take 1 cs = [CHR 0xAA] then CHR ''k'' # foldName (drop 1 cs)
      else c # foldName (d # cs))"

definition find_field :: "string \<Rightarrow> string option" where
  "find_field key =
     (case find (\<lambda>f. f = key) field_names of
        Some f \<Rightarrow> Some f
      | None \<Rightarrow> find (\<lambda>f. foldName f = foldName key) field_names)"

text \<open>
  The decoder's state on an object is the record and, with it, what the array under
  \<open>CallbackUrls\<close> holds after the slice. A key that occurs again is decoded into the
  field as the earlier occurrence left it.
\<close>

fun set_field ::
  "string \<Rightarrow> json \<Rightarrow> OAuthApp \<times> string list \<Rightarrow> DecodeError + (OAuthApp \<times> string list)" where
  "set_field f j (a, spare) =
     (if f = ''id'' then map_sum id (\<lambda>v. (a\<lparr>Id := v\<rparr>, spare)) (unmarshal_string j (Id a))
      else if f = ''creator_id'' then
        map_sum id (\<lambda>v. (a\<lparr>CreatorId := v\<rparr>, spare)) (unmarshal_string j (CreatorId a))
      else if f = ''create_at'' then
        map_sum id (\<lambda>v. (a\<lparr>CreateAt := v\<rparr>, spare)) (unmarshal_int64 j (CreateAt a))
      else if f = ''update_at'' then
        map_sum id (\<lambda>v. (a\<lparr>UpdateAt := v\<rparr>, spare)) (unmarshal_int64 j (UpdateAt a))
      else if f = ''client_secret'' then
        map_sum id (\<lambda>v. (a\<lparr>ClientSecret := v\<rparr>, spare)) (unmarshal_string j (ClientSecret a))
      else if f = ''name'' then map_sum id (\<lambda>v. (a\<lparr>Name := v\<rparr>, spare)) (unmarshal_string j (Name a))
      else if f = ''description'' then
        map_sum id (\<lambda>v. (a\<lparr>Description := v\<rparr>, spare)) (unmarshal_string j (Description a))
      else if f = ''icon_url'' then
        map_sum id (\<lambda>v. (a\<lparr>IconURL := v\<rparr>, spare)) (unmarshal_string j (IconURL a))
      else if f = ''callback_urls'' then
        map_sum id (\<lambda>v. (a\<lparr>CallbackUrls := fst v\<rparr>, snd v))
          (unmarshal_StringArray j (CallbackUrls a, spare))
      else if f = ''homepage'' then
        map_sum id (\<lambda>v. (a\<lparr>Homepage := v\<rparr>, spare)) (unmarshal_string j (Homepage a))
      else map_sum id (\<lambda>v. (a\<lparr>IsTrusted := v\<rparr>, spare)) (unmarshal_bool j (IsTrusted a)))"

fun unmarshal_members ::
  "(string \<times> json) list \<Rightarrow> OAuthApp \<times> string list \<Rightarrow> DecodeError + (OAuthApp \<times> string list)" where
  "unmarshal_members [] st = Inr st"
| "unmarshal_members ((key, j) # ms) st =
     (case find_field key of
        None \<Rightarrow> unmarshal_members ms st
      | Some f \<Rightarrow> (case set_field f j st of Inl e \<Rightarrow> Inl e | Inr st' \<Rightarrow> unmarshal_members ms st'))"

text \<open>
  The records that the deserializers decode into are new: the slice of such a record is
  \<open>nil\<close>, with no array behind it.
\<close>

definition unmarshal_OAuthApp :: "json \<Rightarrow> OAuthApp \<Rightarrow> DecodeError + OAuthApp" where
  "unmarshal_OAuthApp j a =
     (case j of
        JNull \<Rightarrow> Inr a
      | JObject ms \<Rightarrow> map_sum id fst (unmarshal_members ms (a, []))
      | _ \<Rightarrow> Inl UnmarshalTypeError)"

text \<open>The zero value of the struct: what \<open>var app OAuthApp\<close> declares.\<close>

definition zero_OAuthApp :: OAuthApp where
  "zero_OAuthApp =
     \<lparr>Id = '''', CreatorId = '''', CreateAt = 0, UpdateAt = 0, ClientSecret = '''', Name = '''',
      Description = '''', IconURL = '''', CallbackUrls = NilArray, Homepage = '''', IsTrusted = False\<rparr>"

text \<open>A pointer to a record: \<open>null\<close> is the \<open>nil\<close> pointer, an object a new record.\<close>

definition unmarshal_pointer :: "json \<Rightarrow> DecodeError + OAuthApp option" where
  "unmarshal_pointer j =
     (case j of
        JNull \<Rightarrow> Inr None
      | _ \<Rightarrow> map_sum id Some (unmarshal_OAuthApp j zero_OAuthApp))"

fun unmarshal_map_members ::
  "(string \<times> json) list \<Rightarrow> (string \<rightharpoonup> OAuthApp option) \<Rightarrow> DecodeError + (string \<rightharpoonup> OAuthApp option)" where
  "unmarshal_map_members [] m = Inr m"
| "unmarshal_map_members ((key, j) # ms) m =
     (case unmarshal_pointer j of
        Inl e \<Rightarrow> Inl e
      | Inr p \<Rightarrow> unmarshal_map_members ms (m(key \<mapsto> p)))"

text \<open>A map is \<open>nil\<close> (\<open>None\<close>) or a table from keys to pointers.\<close>

definition unmarshal_map :: "json \<Rightarrow> DecodeError + (string \<rightharpoonup> OAuthApp option) option" where
  "unmarshal_map j =
     (case j of
        JNull \<Rightarrow> Inr None
      | JObject ms \<Rightarrow> map_sum id Some (unmarshal_map_members ms Map.empty)
      | _ \<Rightarrow> Inl UnmarshalTypeError)"

fun unmarshal_pointers :: "json list \<Rightarrow> DecodeError + OAuthApp option list" where
  "unmarshal_pointers [] = Inr []"
| "unmarshal_pointers (j # js) =
     (case unmarshal_pointer j of
        Inl e \<Rightarrow> Inl e
      | Inr p \<Rightarrow> (case unmarshal_pointers js of Inl e \<Rightarrow> Inl e | Inr ps \<Rightarrow> Inr (p # ps)))"

definition unmarshal_list :: "json \<Rightarrow> DecodeError + OAuthApp option list option" where
  "unmarshal_list j =
     (case j of
        JNull \<Rightarrow> Inr None
      | JArray js \<Rightarrow> map_sum id Some (unmarshal_pointers js)
      | _ \<Rightarrow> Inl UnmarshalTypeError)"

text \<open>
  \<open>Decoder.Decode\<close> on a reader that delivers the bytes \<open>data\<close>: the first value of
  the stream. What follows that value is not read.
\<close>

definition Decode_value :: "string \<Rightarrow> DecodeError + json" where
  "Decode_value data =
     (if skip_space data = [] then Inl EOF
      else map_sum id fst (parse_value (2 * length data + 2) 0 data))"

definition Decode_OAuthApp :: "string \<Rightarrow> DecodeError + OAuthApp" where
  "Decode_OAuthApp data =
     (case Decode_value data of Inl e \<Rightarrow> Inl e | Inr j \<Rightarrow> unmarshal_OAuthApp j zero_OAuthApp)"

definition Decode_map :: "string \<Rightarrow> DecodeError + (string \<rightharpoonup> OAuthApp option) option" where
  "Decode_map data = (case Decode_value data of Inl e \<Rightarrow> Inl e | Inr j \<Rightarrow> unmarshal_map j)"

definition Decode_list :: "string \<Rightarrow> DecodeError + OAuthApp option list option" where
  "Decode_list data = (case Decode_value data of Inl e \<Rightarrow> Inl e | Inr j \<Rightarrow> unmarshal_list j)"

subsection \<open>OAuthAppFromJson, OAuthAppMapFromJson, OAuthAppListFromJson\<close>

text \<open>
  Each of the three functions of oauth.go decodes into a variable of its type and returns
  the variable when the decoder reports no error, \<open>nil\<close> otherwise. \<open>None\<close> is
  \<open>nil\<close>: the \<open>nil\<close> pointer, the \<open>nil\<close> map, the \<open>nil\<close> slice.
\<close>

definition OAuthAppFromJson :: "string \<Rightarrow> OAuthApp option" where
  "OAuthAppFromJson data = (case Decode_OAuthApp data of Inr app \<Rightarrow> Some app | Inl err \<Rightarrow> None)"



subsection \<open>Well-formed UTF-8, and what a round trip yields\<close>

text \<open>
  \<open>ValidString\<close> is \<open>utf8.ValidString\<close>: the string is a sequence of well-formed
  UTF-8 sequences. \<open>coerce_utf8\<close> is the string that the encoder's coercion leaves:
  every byte that begins no well-formed sequence replaced by the three bytes of U+FFFD.
  \<open>coerce_OAuthApp\<close> coerces every string of a record, and \<open>ValidStrings\<close> says
  that every string of a record is well-formed. \<open>json_of_OAuthApp\<close> is the value that
  the decoder's syntax reads from the serialized record, and \<open>plain\<close> holds of the
  characters that a string literal contains as they are; both serve the proofs only.
\<close>

fun coerce_utf8 :: "string \<Rightarrow> string" where
  "coerce_utf8 [] = []"
| "coerce_utf8 (c # cs) =
     (if (of_char c :: nat) < 0x80 then c # coerce_utf8 cs
      else if DecodeRuneInString (c # cs) = (RuneError, 1)
      then [CHR 0xEF, CHR 0xBF, CHR 0xBD] @ coerce_utf8 cs
      else take (snd (DecodeRuneInString (c # cs))) (c # cs)
             @ coerce_utf8 (drop (snd (DecodeRuneInString (c # cs)) - 1) cs))"

fun ValidString :: "string \<Rightarrow> bool" where
  "ValidString [] = True"
| "ValidString (c # cs) =
     (if (of_char c :: nat) < 0x80 then ValidString cs
      else DecodeRuneInString (c # cs) \<noteq> (RuneError, 1)
           \<and> ValidString (drop (snd (DecodeRuneInString (c # cs)) - 1) cs))"

definition plain :: "char \<Rightarrow> bool" where
  "plain c = (c \<noteq> dquote \<and> c \<noteq> backslash \<and> 0x20 \<le> (of_char c :: nat) \<and> (of_char c :: nat) < 0x80)"

fun json_of_StringArray :: "StringArray \<Rightarrow> json" where
  "json_of_StringArray NilArray = JNull"
| "json_of_StringArray (Array xs) = JArray (map (\<lambda>x. JString (coerce_utf8 x)) xs)"

definition json_of_OAuthApp :: "OAuthApp \<Rightarrow> json" where
  "json_of_OAuthApp a = JObject
     [(''id'', JString (coerce_utf8 (Id a))),
      (''creator_id'', JString (coerce_utf8 (CreatorId a))),
      (''create_at'', JNumber (FormatInt (sint (CreateAt a)))),
      (''update_at'', JNumber (FormatInt (sint (UpdateAt a)))),
      (''client_secret'', JString (coerce_utf8 (ClientSecret a))),
      (''name'', JString (coerce_utf8 (Name a))),
      (''description'', JString (coerce_utf8 (Description a))),
      (''icon_url'', JString (coerce_utf8 (IconURL a))),
      (''callback_urls'', json_of_StringArray (CallbackUrls a)),
      (''homepage'', JString (coerce_utf8 (Homepage a))),
      (''is_trusted'', JBool (IsTrusted a))]"

fun coerce_StringArray :: "StringArray \<Rightarrow> StringArray" where
  "coerce_StringArray NilArray = NilArray"
| "coerce_StringArray (Array xs) = Array (map coerce_utf8 xs)"

definition coerce_OAuthApp :: "OAuthApp \<Rightarrow> OAuthApp" where
  "coerce_OAuthApp a =
     a\<lparr>Id := coerce_utf8 (Id a), CreatorId := coerce_utf8 (CreatorId a),
       ClientSecret := coerce_utf8 (ClientSecret a), Name := coerce_utf8 (Name a),
       Description := coerce_utf8 (Description a), IconURL := coerce_utf8 (IconURL a),
       CallbackUrls := coerce_StringArray (CallbackUrls a), Homepage := coerce_utf8 (Homepage a)\<rparr>"

text \<open>The numbers are the values that end only where the next byte says so.\<close>

fun is_JNumber :: "json \<Rightarrow> bool" where
  "is_JNumber (JNumber lit) = True"
| "is_JNumber j = False"

definition ValidStrings :: "OAuthApp \<Rightarrow> bool" where
  "ValidStrings a =
     (ValidString (Id a) \<and> ValidString (CreatorId a) \<and> ValidString (ClientSecret a)
      \<and> ValidString (Name a) \<and> ValidString (Description a) \<and> ValidString (IconURL a)
      \<and> list_all ValidString (elems (CallbackUrls a)) \<and> ValidString (Homepage a))"

section \<open>Properties\<close>

subsection \<open>The loops\<close>

lemma IsValidRedirectURL_loop_set: "IsValidRedirectURL_loop us url = (url \<in> set us)"
  by (induction us) auto

lemma IsValid_callbacks_list_all:
  "IsValid_callbacks v xs =
     (if list_all v xs then None
      else Some (NewLocAppError ''OAuthApp.IsValid'' ''model.oauth.is_valid.callback.app_error'' ''''))"
  by (induction xs) auto

lemma IsValid_first_failure: "IsValid v a = first_failure (validate_rules v a)"
  unfolding IsValid_def validate_rules_def Fail_def IsValid_callbacks_list_all
  by (simp add: not_le not_less Suc_le_eq)

lemma first_failure_None: "\<forall>r \<in> set rs. fst r \<Longrightarrow> first_failure rs = None"
  by (induction rs) auto

subsection \<open>Redirect URLs\<close>

text \<open>
  C1. \<open>IsValidRedirectURL\<close> returns true exactly when the candidate is equal, byte for
  byte, to an element of \<open>CallbackUrls\<close>. In particular, against a single registered
  entry, the entry followed by a slash is refused, and so is the entry with its scheme in
  capitals; the specification's concrete case (\<open>https://example.com/cb\<close> accepted,
  \<open>https://example.com/cb/\<close> refused) is the last two conjuncts.
\<close>

theorem IsValidRedirectURL_exact_match:
  "(IsValidRedirectURL a u \<longleftrightarrow> u \<in> set (elems (CallbackUrls a)))
   \<and> \<not> IsValidRedirectURL (a\<lparr>CallbackUrls := Array [e]\<rparr>) (e @ ''/'')
   \<and> \<not> IsValidRedirectURL (a\<lparr>CallbackUrls := Array [''https://'' @ r]\<rparr>) (''HTTPS://'' @ r)
   \<and> \<not> IsValidRedirectURL (a\<lparr>CallbackUrls := Array [''http://'' @ r]\<rparr>) (''HTTP://'' @ r)
   \<and> IsValidRedirectURL (a\<lparr>CallbackUrls := Array [''https://example.com/cb'']\<rparr>)
        ''https://example.com/cb''
   \<and> \<not> IsValidRedirectURL (a\<lparr>CallbackUrls := Array [''https://example.com/cb'']\<rparr>)
        ''https://example.com/cb/''"
  by (simp add: IsValidRedirectURL_def IsValidRedirectURL_loop_set)

subsection \<open>Validation\<close>

text \<open>
  C2. \<open>IsValid\<close> is the first failure of the eleven rules of the specification, taken
  in the specification's order: it reports the first violated rule and nothing else. In
  particular a record whose \<open>Id\<close> is not 26 bytes long fails with the code of the
  \<open>Id\<close> rule, whatever the other fields are.
\<close>

theorem IsValid_first_failure_wins:
  "IsValid v a = first_failure (validate_rules v a)
   \<and> length (validate_rules v a) = 11
   \<and> (length (Id a) \<noteq> 26 \<longrightarrow>
        IsValid v a
          = Some (NewLocAppError ''OAuthApp.IsValid'' ''model.oauth.is_valid.app_id.app_error'' ''''))"
proof (intro conjI impI)
  show "IsValid v a = first_failure (validate_rules v a)"
    by (rule IsValid_first_failure)
  show "length (validate_rules v a) = 11"
    by (simp add: validate_rules_def)
  show "IsValid v a
          = Some (NewLocAppError ''OAuthApp.IsValid'' ''model.oauth.is_valid.app_id.app_error'' '''')"
    if "length (Id a) \<noteq> 26"
    using that by (simp add: IsValid_def)
qed

text \<open>
  A record that violates the rules on \<open>Id\<close>, \<open>CreateAt\<close> and \<open>CreatorId\<close> at once
  reports the \<open>Id\<close> failure.
\<close>

theorem IsValid_first_failure_wins_witness:
  "length (Id \<lparr>Id = ''short'', CreatorId = '''', CreateAt = 0, UpdateAt = 5,
             ClientSecret = ''secret'', Name = ''app'', Description = '''', IconURL = '''',
             CallbackUrls = Array [''https://example.com/cb''],
             Homepage = ''https://example.com'', IsTrusted = False\<rparr>) \<noteq> 26
   \<and> IsValid (\<lambda>u. take 8 u = ''https://'')
        \<lparr>Id = ''short'', CreatorId = '''', CreateAt = 0, UpdateAt = 5,
         ClientSecret = ''secret'', Name = ''app'', Description = '''', IconURL = '''',
         CallbackUrls = Array [''https://example.com/cb''],
         Homepage = ''https://example.com'', IsTrusted = False\<rparr>
      = Some (NewLocAppError ''OAuthApp.IsValid'' ''model.oauth.is_valid.app_id.app_error'' '''')"
proof -
  let ?a = "\<lparr>Id = ''short'', CreatorId = '''', CreateAt = 0 :: int64, UpdateAt = 5 :: int64,
             ClientSecret = ''secret'', Name = ''app'', Description = '''', IconURL = '''',
             CallbackUrls = Array [''https://example.com/cb''],
             Homepage = ''https://example.com'', IsTrusted = False\<rparr>"
  have h: "length (Id ?a) \<noteq> 26" by simp
  from IsValid_first_failure_wins [of "\<lambda>u. take 8 u = ''https://''" ?a] h
  show ?thesis by blast
qed

text \<open>
  C8. \<open>IsValid\<close> does not compare the two timestamps: a record that satisfies the
  eleven rules is valid also when \<open>UpdateAt\<close> is before \<open>CreateAt\<close>.
\<close>

theorem IsValid_ignores_timestamp_order:
  assumes "\<forall>r \<in> set (validate_rules v a). fst r"
    and "sint (UpdateAt a) < sint (CreateAt a)"
  shows "IsValid v a = None"
  using assms(1) by (simp add: IsValid_first_failure first_failure_None)

theorem IsValid_ignores_timestamp_order_witness:
  "list_all fst (validate_rules (\<lambda>u. take 8 u = ''https://'')
       \<lparr>Id = ''abcdefghijklmnopqrstuvwxyz'', CreatorId = ''zyxwvutsrqponmlkjihgfedcba'',
        CreateAt = 2000, UpdateAt = 1000, ClientSecret = ''secret'', Name = ''app'',
        Description = ''an app'', IconURL = '''', CallbackUrls = Array [''https://example.com/cb''],
        Homepage = ''https://example.com'', IsTrusted = False\<rparr>)
   \<and> sint (1000 :: int64) < sint (2000 :: int64)
   \<and> IsValid (\<lambda>u. take 8 u = ''https://'')
       \<lparr>Id = ''abcdefghijklmnopqrstuvwxyz'', CreatorId = ''zyxwvutsrqponmlkjihgfedcba'',
        CreateAt = 2000, UpdateAt = 1000, ClientSecret = ''secret'', Name = ''app'',
        Description = ''an app'', IconURL = '''', CallbackUrls = Array [''https://example.com/cb''],
        Homepage = ''https://example.com'', IsTrusted = False\<rparr> = None"
proof -
  let ?v = "\<lambda>u. take 8 u = ''https://''"
  let ?a = "\<lparr>Id = ''abcdefghijklmnopqrstuvwxyz'', CreatorId = ''zyxwvutsrqponmlkjihgfedcba'',
        CreateAt = 2000 :: int64, UpdateAt = 1000 :: int64, ClientSecret = ''secret'', Name = ''app'',
        Description = ''an app'', IconURL = '''', CallbackUrls = Array [''https://example.com/cb''],
        Homepage = ''https://example.com'', IsTrusted = False\<rparr>"
  have h1: "\<forall>r \<in> set (validate_rules ?v ?a). fst r"
    by (simp add: validate_rules_def Sprintf_s_def DecodeRuneInString_def)
  have h2: "sint (UpdateAt ?a) < sint (CreateAt ?a)" by simp
  from IsValid_ignores_timestamp_order [OF h1 h2] h1 h2 show ?thesis by (simp add: list_all_iff)
qed

text \<open>
  C9. The failure of the \<open>Id\<close> rule carries an empty context, so two records with
  different ill-formed ids fail identically and the id cannot be read back from the
  failure. A failure of \<open>IsValid\<close> has the empty context exactly when it is the \<open>Id\<close>
  failure or the failure of one callback URL (the callback code, reported although the
  list is non-empty and its printed form is within 1024 bytes); every other failure has
  the context \<open>app_id=\<close> followed by the record's id.
\<close>

theorem IsValid_error_context:
  "(length (Id a) \<noteq> 26 \<longrightarrow>
      IsValid v a
        = Some (NewLocAppError ''OAuthApp.IsValid'' ''model.oauth.is_valid.app_id.app_error'' ''''))
   \<and> (length (Id a) \<noteq> 26 \<and> length (Id b) \<noteq> 26 \<longrightarrow> IsValid v a = IsValid v b)
   \<and> (IsValid v a = Some e \<longrightarrow>
        ErrDetails e =
          (if ErrId e = ''model.oauth.is_valid.app_id.app_error''
              \<or> (ErrId e = ''model.oauth.is_valid.callback.app_error''
                  \<and> elems (CallbackUrls a) \<noteq> [] \<and> length (Sprintf_s (CallbackUrls a)) \<le> 1024)
           then '''' else ''app_id='' @ Id a))"
proof (intro conjI impI)
  show "IsValid v a
          = Some (NewLocAppError ''OAuthApp.IsValid'' ''model.oauth.is_valid.app_id.app_error'' '''')"
    if "length (Id a) \<noteq> 26"
    using that by (simp add: IsValid_def)
  show "IsValid v a = IsValid v b" if "length (Id a) \<noteq> 26 \<and> length (Id b) \<noteq> 26"
    using that by (simp add: IsValid_def)
  show "ErrDetails e =
          (if ErrId e = ''model.oauth.is_valid.app_id.app_error''
              \<or> (ErrId e = ''model.oauth.is_valid.callback.app_error''
                  \<and> elems (CallbackUrls a) \<noteq> [] \<and> length (Sprintf_s (CallbackUrls a)) \<le> 1024)
           then '''' else ''app_id='' @ Id a)"
    if "IsValid v a = Some e"
    using that unfolding IsValid_def IsValid_callbacks_list_all
    by (auto split: if_splits)
qed

text \<open>
  A record with an ill-formed id fails with the empty context; a record with a
  well-formed id and an empty name fails with the context that names its id.
\<close>

theorem IsValid_error_context_witness:
  "length (Id \<lparr>Id = ''short'', CreatorId = ''zyxwvutsrqponmlkjihgfedcba'',
             CreateAt = 2000, UpdateAt = 1000, ClientSecret = ''secret'', Name = ''app'',
             Description = '''', IconURL = '''', CallbackUrls = Array [''https://example.com/cb''],
             Homepage = ''https://example.com'', IsTrusted = False\<rparr>) \<noteq> 26
   \<and> IsValid (\<lambda>u. take 8 u = ''https://'')
        \<lparr>Id = ''short'', CreatorId = ''zyxwvutsrqponmlkjihgfedcba'',
         CreateAt = 2000, UpdateAt = 1000, ClientSecret = ''secret'', Name = ''app'',
         Description = '''', IconURL = '''', CallbackUrls = Array [''https://example.com/cb''],
         Homepage = ''https://example.com'', IsTrusted = False\<rparr>
      = Some (NewLocAppError ''OAuthApp.IsValid'' ''model.oauth.is_valid.app_id.app_error'' '''')
   \<and> IsValid (\<lambda>u. take 8 u = ''https://'')
        \<lparr>Id = ''abcdefghijklmnopqrstuvwxyz'', CreatorId = ''zyxwvutsrqponmlkjihgfedcba'',
         CreateAt = 2000, UpdateAt = 1000, ClientSecret = ''secret'', Name = '''',
         Description = '''', IconURL = '''', CallbackUrls = Array [''https://example.com/cb''],
         Homepage = ''https://example.com'', IsTrusted = False\<rparr>
      = Some (NewLocAppError ''OAuthApp.IsValid'' ''model.oauth.is_valid.name.app_error''
               ''app_id=abcdefghijklmnopqrstuvwxyz'')
   \<and> ErrDetails (NewLocAppError ''OAuthApp.IsValid'' ''model.oauth.is_valid.name.app_error''
               ''app_id=abcdefghijklmnopqrstuvwxyz'') = ''app_id=abcdefghijklmnopqrstuvwxyz''
   \<and> IsValid (\<lambda>u. take 8 u = ''https://'')
        \<lparr>Id = ''abcdefghijklmnopqrstuvwxyz'', CreatorId = ''zyxwvutsrqponmlkjihgfedcba'',
         CreateAt = 2000, UpdateAt = 1000, ClientSecret = ''secret'', Name = ''app'',
         Description = '''', IconURL = '''', CallbackUrls = Array [''ftp://example.com/cb''],
         Homepage = ''https://example.com'', IsTrusted = False\<rparr>
      = Some (NewLocAppError ''OAuthApp.IsValid'' ''model.oauth.is_valid.callback.app_error'' '''')"
proof -
  let ?v = "\<lambda>u. take 8 u = ''https://''"
  let ?a = "\<lparr>Id = ''short'', CreatorId = ''zyxwvutsrqponmlkjihgfedcba'',
         CreateAt = 2000 :: int64, UpdateAt = 1000 :: int64, ClientSecret = ''secret'', Name = ''app'',
         Description = '''', IconURL = '''', CallbackUrls = Array [''https://example.com/cb''],
         Homepage = ''https://example.com'', IsTrusted = False\<rparr>"
  let ?b = "\<lparr>Id = ''abcdefghijklmnopqrstuvwxyz'', CreatorId = ''zyxwvutsrqponmlkjihgfedcba'',
         CreateAt = 2000 :: int64, UpdateAt = 1000 :: int64, ClientSecret = ''secret'', Name = '''',
         Description = '''', IconURL = '''', CallbackUrls = Array [''https://example.com/cb''],
         Homepage = ''https://example.com'', IsTrusted = False\<rparr>"
  let ?c = "\<lparr>Id = ''abcdefghijklmnopqrstuvwxyz'', CreatorId = ''zyxwvutsrqponmlkjihgfedcba'',
         CreateAt = 2000 :: int64, UpdateAt = 1000 :: int64, ClientSecret = ''secret'', Name = ''app'',
         Description = '''', IconURL = '''', CallbackUrls = Array [''ftp://example.com/cb''],
         Homepage = ''https://example.com'', IsTrusted = False\<rparr>"
  let ?e = "NewLocAppError ''OAuthApp.IsValid'' ''model.oauth.is_valid.name.app_error''
               ''app_id=abcdefghijklmnopqrstuvwxyz''"
  have ha: "length (Id ?a) \<noteq> 26" by simp
  have hb: "IsValid ?v ?b = Some ?e" by (simp add: IsValid_def)
  have hc: "IsValid ?v ?c
      = Some (NewLocAppError ''OAuthApp.IsValid'' ''model.oauth.is_valid.callback.app_error'' '''')"
    by (simp add: IsValid_def Sprintf_s_def)
  from IsValid_error_context [where a = ?a and v = ?v and b = ?a]
       IsValid_error_context [where a = ?b and v = ?v and b = ?b and e = ?e] ha hb hc
  show ?thesis by simp
qed

subsection \<open>The life cycle\<close>

text \<open>
  C4. Provided the identifier generator returns 26-byte strings: \<open>PreSave\<close> on a record
  with empty \<open>Id\<close> and empty \<open>ClientSecret\<close> fills both with 26-byte values; it
  always leaves \<open>CreateAt\<close> equal to \<open>UpdateAt\<close>; it keeps an \<open>Id\<close> or a
  \<open>ClientSecret\<close> that is already non-empty. A \<open>PreUpdate\<close> that follows sets
  \<open>UpdateAt\<close> to the time it reads and changes no other field.
\<close>

theorem PreSave_then_PreUpdate:
  assumes "\<forall>w. length (fst (newId w)) = 26"
  shows "(Id a = '''' \<and> ClientSecret a = '''' \<longrightarrow>
            length (Id (fst (PreSave newId getMillis a w))) = 26
          \<and> length (ClientSecret (fst (PreSave newId getMillis a w))) = 26)
       \<and> CreateAt (fst (PreSave newId getMillis a w)) = UpdateAt (fst (PreSave newId getMillis a w))
       \<and> (Id a \<noteq> '''' \<longrightarrow> Id (fst (PreSave newId getMillis a w)) = Id a)
       \<and> (ClientSecret a \<noteq> '''' \<longrightarrow>
            ClientSecret (fst (PreSave newId getMillis a w)) = ClientSecret a)
       \<and> (case PreSave newId getMillis a w of (a', w') \<Rightarrow>
            fst (PreUpdate getMillis a' w') = a'\<lparr>UpdateAt := fst (getMillis w')\<rparr>)"
proof -
  have gen: "length i = 26" if "newId w0 = (i, w1)" for w0 i w1
    using assms that by (metis fst_conv)
  show ?thesis
    by (auto simp: PreSave_def PreUpdate_def Let_def gen split: prod.splits)
qed

text \<open>
  With a generator that returns 26 times \<open>x\<close> and a clock that starts at 1000 and
  advances by one at every reading of the world: a record with neither id nor secret
  gets both and the time 1002, and the update that follows stamps 1003; a record that
  has an id and a secret keeps them.
\<close>

theorem PreSave_then_PreUpdate_witness:
  "(\<forall>w. length (fst ((\<lambda>n :: nat. (replicate 26 (CHR ''x''), Suc n)) w)) = 26)
   \<and> PreSave (\<lambda>n :: nat. (replicate 26 (CHR ''x''), Suc n)) (\<lambda>n. (word_of_nat (1000 + n), Suc n))
        \<lparr>Id = '''', CreatorId = ''zyxwvutsrqponmlkjihgfedcba'',
         CreateAt = 0, UpdateAt = 0, ClientSecret = '''', Name = ''app'',
         Description = '''', IconURL = '''', CallbackUrls = Array [''https://example.com/cb''],
         Homepage = ''https://example.com'', IsTrusted = False\<rparr> 0
      = (\<lparr>Id = ''xxxxxxxxxxxxxxxxxxxxxxxxxx'', CreatorId = ''zyxwvutsrqponmlkjihgfedcba'',
         CreateAt = 1002, UpdateAt = 1002, ClientSecret = ''xxxxxxxxxxxxxxxxxxxxxxxxxx'', Name = ''app'',
         Description = '''', IconURL = '''', CallbackUrls = Array [''https://example.com/cb''],
         Homepage = ''https://example.com'', IsTrusted = False\<rparr>, 3)
   \<and> fst (PreUpdate (\<lambda>n :: nat. (word_of_nat (1000 + n), Suc n))
        \<lparr>Id = ''xxxxxxxxxxxxxxxxxxxxxxxxxx'', CreatorId = ''zyxwvutsrqponmlkjihgfedcba'',
         CreateAt = 1002, UpdateAt = 1002, ClientSecret = ''xxxxxxxxxxxxxxxxxxxxxxxxxx'', Name = ''app'',
         Description = '''', IconURL = '''', CallbackUrls = Array [''https://example.com/cb''],
         Homepage = ''https://example.com'', IsTrusted = False\<rparr> 3)
      = \<lparr>Id = ''xxxxxxxxxxxxxxxxxxxxxxxxxx'', CreatorId = ''zyxwvutsrqponmlkjihgfedcba'',
         CreateAt = 1002, UpdateAt = 1003, ClientSecret = ''xxxxxxxxxxxxxxxxxxxxxxxxxx'', Name = ''app'',
         Description = '''', IconURL = '''', CallbackUrls = Array [''https://example.com/cb''],
         Homepage = ''https://example.com'', IsTrusted = False\<rparr>
   \<and> PreSave (\<lambda>n :: nat. (replicate 26 (CHR ''x''), Suc n)) (\<lambda>n. (word_of_nat (1000 + n), Suc n))
        \<lparr>Id = ''abcdefghijklmnopqrstuvwxyz'', CreatorId = ''zyxwvutsrqponmlkjihgfedcba'',
         CreateAt = 7, UpdateAt = 9, ClientSecret = ''secret'', Name = ''app'',
         Description = '''', IconURL = '''', CallbackUrls = Array [''https://example.com/cb''],
         Homepage = ''https://example.com'', IsTrusted = False\<rparr> 0
      = (\<lparr>Id = ''abcdefghijklmnopqrstuvwxyz'', CreatorId = ''zyxwvutsrqponmlkjihgfedcba'',
         CreateAt = 1000, UpdateAt = 1000, ClientSecret = ''secret'', Name = ''app'',
         Description = '''', IconURL = '''', CallbackUrls = Array [''https://example.com/cb''],
         Homepage = ''https://example.com'', IsTrusted = False\<rparr>, 1)"
proof -
  let ?newId = "\<lambda>n :: nat. (replicate 26 (CHR ''x''), Suc n)"
  let ?getMillis = "\<lambda>n :: nat. (word_of_nat (1000 + n) :: int64, Suc n)"
  let ?a = "\<lparr>Id = '''', CreatorId = ''zyxwvutsrqponmlkjihgfedcba'',
         CreateAt = 0 :: int64, UpdateAt = 0 :: int64, ClientSecret = '''', Name = ''app'',
         Description = '''', IconURL = '''', CallbackUrls = Array [''https://example.com/cb''],
         Homepage = ''https://example.com'', IsTrusted = False\<rparr>"
  let ?b = "\<lparr>Id = ''abcdefghijklmnopqrstuvwxyz'', CreatorId = ''zyxwvutsrqponmlkjihgfedcba'',
         CreateAt = 7 :: int64, UpdateAt = 9 :: int64, ClientSecret = ''secret'', Name = ''app'',
         Description = '''', IconURL = '''', CallbackUrls = Array [''https://example.com/cb''],
         Homepage = ''https://example.com'', IsTrusted = False\<rparr>"
  have h: "\<forall>w. length (fst (?newId w)) = 26" by simp
  have ea: "PreSave ?newId ?getMillis ?a 0
      = (\<lparr>Id = ''xxxxxxxxxxxxxxxxxxxxxxxxxx'', CreatorId = ''zyxwvutsrqponmlkjihgfedcba'',
         CreateAt = 1002, UpdateAt = 1002, ClientSecret = ''xxxxxxxxxxxxxxxxxxxxxxxxxx'', Name = ''app'',
         Description = '''', IconURL = '''', CallbackUrls = Array [''https://example.com/cb''],
         Homepage = ''https://example.com'', IsTrusted = False\<rparr>, 3)"
    by (simp add: PreSave_def eval_nat_numeral)
  have eb: "PreSave ?newId ?getMillis ?b 0
      = (\<lparr>Id = ''abcdefghijklmnopqrstuvwxyz'', CreatorId = ''zyxwvutsrqponmlkjihgfedcba'',
         CreateAt = 1000, UpdateAt = 1000, ClientSecret = ''secret'', Name = ''app'',
         Description = '''', IconURL = '''', CallbackUrls = Array [''https://example.com/cb''],
         Homepage = ''https://example.com'', IsTrusted = False\<rparr>, 1)"
    by (simp add: PreSave_def)
  from PreSave_then_PreUpdate [OF h, of ?a ?getMillis 0]
       PreSave_then_PreUpdate [OF h, of ?b ?getMillis 0] h ea eb
  show ?thesis by simp
qed

subsection \<open>Sanitizing\<close>

text \<open>
  C6. \<open>Sanitize\<close> leaves \<open>ClientSecret\<close> empty, applying it twice is applying it
  once, and it changes no other field.
\<close>

theorem Sanitize_clears_secret:
  "ClientSecret (Sanitize a) = ''''
   \<and> Sanitize (Sanitize a) = Sanitize a
   \<and> Sanitize a = a\<lparr>ClientSecret := ''''\<rparr>
   \<and> Id (Sanitize a) = Id a \<and> CreatorId (Sanitize a) = CreatorId a
   \<and> CreateAt (Sanitize a) = CreateAt a \<and> UpdateAt (Sanitize a) = UpdateAt a
   \<and> Name (Sanitize a) = Name a \<and> Description (Sanitize a) = Description a
   \<and> IconURL (Sanitize a) = IconURL a \<and> CallbackUrls (Sanitize a) = CallbackUrls a
   \<and> Homepage (Sanitize a) = Homepage a \<and> IsTrusted (Sanitize a) = IsTrusted a"
  by (simp add: Sanitize_def)

section \<open>Properties of the serialization\<close>

subsection \<open>One UTF-8 sequence, decoded and encoded again\<close>

lemma DecodeRune_bytes_size: "DecodeRune_bytes bs = (r, n) \<Longrightarrow> n \<le> 4 \<and> n \<le> length bs"
  by (cases bs) (auto split: if_splits list.splits)

lemma DecodeRune_bytes_valid_prefix:
  assumes "DecodeRune_bytes bs = (r, n)" and "2 \<le> n"
  shows "DecodeRune_bytes (take n bs @ t) = (r, n)"
  using assms by (cases bs) (auto split: if_splits list.splits)

lemma divmod64: "z < 64 \<Longrightarrow> (q * 64 + z) div 64 = q \<and> (q * 64 + z) mod 64 = (z::nat)"
  by simp

lemma enc2:
  assumes "0xC2 \<le> b0" "b0 \<le> (0xDF::nat)" "0x80 \<le> b1" "b1 \<le> (0xBF::nat)"
  shows "EncodeRune ((b0 - 0xC0) * 64 + (b1 - 0x80)) = [char_of b0, char_of b1]"
proof -
  define x where "x = b0 - 0xC0"
  define y where "y = b1 - 0x80"
  have b: "b0 = 0xC0 + x" "b1 = 0x80 + y" "2 \<le> x" "x \<le> 31" "y < 64"
    using assms by (auto simp: x_def y_def)
  have "(x * 64 + y) div 64 = x" "(x * 64 + y) mod 64 = y" using b by auto
  moreover have "128 \<le> x * 64 + y" "x * 64 + y < 2048" using b by auto
  ultimately show ?thesis
    unfolding x_def [symmetric] y_def [symmetric] by (simp add: EncodeRune_def b)
qed

lemma enc3:
  assumes "0xE0 \<le> b0" "b0 \<le> (0xEF::nat)" "(if b0 = 0xE0 then 0xA0 else 0x80) \<le> b1"
    "b1 \<le> (if b0 = 0xED then 0x9F else (0xBF::nat))" "0x80 \<le> b2" "b2 \<le> (0xBF::nat)"
  shows "EncodeRune ((b0 - 0xE0) * 4096 + (b1 - 0x80) * 64 + (b2 - 0x80)) = [char_of b0, char_of b1, char_of b2]"
proof -
  define x where "x = b0 - 0xE0"
  define y where "y = b1 - 0x80"
  define z where "z = b2 - 0x80"
  have b: "b0 = 0xE0 + x" "b1 = 0x80 + y" "b2 = 0x80 + z" "x \<le> 15" "y < 64" "z < 64"
    using assms by (auto simp: x_def y_def z_def split: if_splits)
  have c: "x = 0 \<Longrightarrow> 32 \<le> y" "x = 13 \<Longrightarrow> y < 32"
    using assms by (auto simp: x_def y_def z_def split: if_splits)
  define r where "r = x * 4096 + y * 64 + z"
  have r1: "r = (x * 64 + y) * 64 + z" by (simp add: r_def)
  have d1: "r div 64 = x * 64 + y" "r mod 64 = z"
    unfolding r1 using divmod64 [of z "x * 64 + y"] b by auto
  have d2: "(r div 64) mod 64 = y" "r div 4096 = x"
  proof -
    show "(r div 64) mod 64 = y" unfolding d1 using divmod64 [of y x] b by auto
    have "r div 4096 = (r div 64) div 64" by (simp add: div_mult2_eq)
    then show "r div 4096 = x" unfolding d1 using divmod64 [of y x] b by auto
  qed
  have r: "2048 \<le> r" "r < 65536" "\<not> (55296 \<le> r \<and> r \<le> 57343)"
  proof -
    show "2048 \<le> r" using b c(1) unfolding r_def by (cases "x = 0") auto
    show "r < 65536" using b unfolding r_def by auto
    show "\<not> (55296 \<le> r \<and> r \<le> 57343)"
      using b c(2) unfolding r_def by (cases "x = 13") auto
  qed
  have "EncodeRune r = [char_of b0, char_of b1, char_of b2]"
    using r d1 d2 by (auto simp: EncodeRune_def b)
  then show ?thesis
    unfolding r_def x_def y_def z_def .
qed

lemma enc4:
  assumes "0xF0 \<le> b0" "b0 \<le> (0xF4::nat)" "(if b0 = 0xF0 then 0x90 else 0x80) \<le> b1"
    "b1 \<le> (if b0 = 0xF4 then 0x8F else (0xBF::nat))" "0x80 \<le> b2" "b2 \<le> (0xBF::nat)"
    "0x80 \<le> b3" "b3 \<le> (0xBF::nat)"
  shows "EncodeRune ((b0 - 0xF0) * 262144 + (b1 - 0x80) * 4096 + (b2 - 0x80) * 64 + (b3 - 0x80))
         = [char_of b0, char_of b1, char_of b2, char_of b3]"
proof -
  define x where "x = b0 - 0xF0"
  define y where "y = b1 - 0x80"
  define z where "z = b2 - 0x80"
  define u where "u = b3 - 0x80"
  have b: "b0 = 0xF0 + x" "b1 = 0x80 + y" "b2 = 0x80 + z" "b3 = 0x80 + u" "x \<le> 4" "y < 64" "z < 64" "u < 64"
    using assms by (auto simp: x_def y_def z_def u_def split: if_splits)
  have c: "x = 0 \<Longrightarrow> 16 \<le> y" "x = 4 \<Longrightarrow> y < 16"
    using assms by (auto simp: x_def y_def split: if_splits)
  define r where "r = x * 262144 + y * 4096 + z * 64 + u"
  have r1: "r = ((x * 64 + y) * 64 + z) * 64 + u" by (simp add: r_def)
  have d1: "r div 64 = (x * 64 + y) * 64 + z" "r mod 64 = u"
    unfolding r1 using divmod64 [of u "(x * 64 + y) * 64 + z"] b by auto
  have e1: "r div 4096 = (r div 64) div 64" by (simp add: div_mult2_eq)
  have d2: "r div 4096 = x * 64 + y" "(r div 64) mod 64 = z"
    unfolding e1 d1 using divmod64 [of z "x * 64 + y"] b by auto
  have e2: "r div 262144 = (r div 4096) div 64" by (simp add: div_mult2_eq)
  have d3: "r div 262144 = x" "(r div 4096) mod 64 = y"
    unfolding e2 d2 using divmod64 [of y x] b by auto
  have r: "65536 \<le> r" "r \<le> 1114111"
  proof -
    show "65536 \<le> r" using b c(1) unfolding r_def by (cases "x = 0") auto
    show "r \<le> 1114111" using b c(2) unfolding r_def by (cases "x = 4") auto
  qed
  have "EncodeRune r = [char_of b0, char_of b1, char_of b2, char_of b3]"
    using r d1 d2 d3 by (simp add: EncodeRune_def b)
  then show ?thesis
    unfolding r_def x_def y_def z_def u_def .
qed

lemma DecodeRune_bytes_cases:
  assumes "DecodeRune_bytes (b # bs) = (r, n)" and "\<not> b < 0x80"
  shows "(r = RuneError \<and> n = 1) \<or> (2 \<le> n \<and> EncodeRune r = map char_of (take n (b # bs)))"
proof (cases "0xC2 \<le> b \<and> b \<le> 0xDF")
  case True
  show ?thesis
  proof (cases bs)
    case Nil
    then show ?thesis using assms True by auto
  next
    case (Cons b1 bs1)
    show ?thesis
    proof (cases "cont_byte b1")
      case False
      then show ?thesis using assms True Cons by auto
    next
      case v: True
      have "r = (b - 0xC0) * 64 + (b1 - 0x80)" "n = 2"
        using assms True Cons v by auto
      moreover have "EncodeRune ((b - 0xC0) * 64 + (b1 - 0x80)) = [char_of b, char_of b1]"
        using True v by (intro enc2) (auto simp: cont_byte_def)
      ultimately show ?thesis using Cons by simp
    qed
  qed
next
  case n2: False
  show ?thesis
  proof (cases "0xE0 \<le> b \<and> b \<le> 0xEF")
    case True
    show ?thesis
    proof (cases bs)
      case Nil
      then show ?thesis using assms n2 True by auto
    next
      case (Cons b1 bs1)
      show ?thesis
      proof (cases bs1)
        case Nil
        then show ?thesis using assms n2 True Cons by auto
      next
        case (Cons b2 bs2)
        show ?thesis
        proof (cases "(if b = 0xE0 then 0xA0 else 0x80) \<le> b1 \<and> b1 \<le> (if b = 0xED then 0x9F else 0xBF) \<and> cont_byte b2")
          case False
          then show ?thesis using assms n2 True \<open>bs = b1 # bs1\<close> Cons by (auto split: if_splits)
        next
          case v: True
          have "r = (b - 0xE0) * 4096 + (b1 - 0x80) * 64 + (b2 - 0x80)" "n = 3"
            using assms n2 True \<open>bs = b1 # bs1\<close> Cons v by (auto split: if_splits)
          moreover have "EncodeRune ((b - 0xE0) * 4096 + (b1 - 0x80) * 64 + (b2 - 0x80)) = [char_of b, char_of b1, char_of b2]"
            using True v by (intro enc3) (auto simp: cont_byte_def)
          ultimately show ?thesis using \<open>bs = b1 # bs1\<close> Cons by simp
        qed
      qed
    qed
  next
    case n3: False
    show ?thesis
    proof (cases "0xF0 \<le> b \<and> b \<le> 0xF4")
      case False
      then show ?thesis using assms n2 n3 by auto
    next
      case True
      show ?thesis
      proof (cases "\<exists>b1 b2 b3 bs3. bs = b1 # b2 # b3 # bs3")
        case False
        then show ?thesis using assms n2 n3 True by (auto split: list.splits)
      next
        case e: True
        then obtain b1 b2 b3 bs3 where bs: "bs = b1 # b2 # b3 # bs3" by blast
        show ?thesis
        proof (cases "(if b = 0xF0 then 0x90 else 0x80) \<le> b1 \<and> b1 \<le> (if b = 0xF4 then 0x8F else 0xBF) \<and> cont_byte b2 \<and> cont_byte b3")
          case False
          then show ?thesis using assms n2 n3 True bs by (auto split: if_splits)
        next
          case v: True
          have "r = (b - 0xF0) * 262144 + (b1 - 0x80) * 4096 + (b2 - 0x80) * 64 + (b3 - 0x80)" "n = 4"
            using assms n2 n3 True bs v by (auto split: if_splits)
          moreover have "EncodeRune ((b - 0xF0) * 262144 + (b1 - 0x80) * 4096 + (b2 - 0x80) * 64 + (b3 - 0x80))
                = [char_of b, char_of b1, char_of b2, char_of b3]"
            using True v by (intro enc4) (auto simp: cont_byte_def)
          ultimately show ?thesis using bs by simp
        qed
      qed
    qed
  qed
qed

lemma DecodeRuneInString_cases:
  assumes "DecodeRuneInString (c # cs) = (r, n)" and "\<not> (of_char c :: nat) < 0x80"
  shows "(r = RuneError \<and> n = 1)
       \<or> (2 \<le> n \<and> n \<le> length (c # cs) \<and> EncodeRune r = take n (c # cs)
           \<and> (\<forall>t. DecodeRuneInString (take n (c # cs) @ t) = (r, n)))"
proof -
  let ?bs = "map of_char (take 4 (c # cs)) :: nat list"
  have d: "DecodeRune_bytes ?bs = (r, n)" using assms(1) by (simp add: DecodeRuneInString_def)
  have sz: "n \<le> 4" "n \<le> length ?bs" using DecodeRune_bytes_size [OF d] by auto
  have bs: "?bs = of_char c # map of_char (take 3 cs)" by simp
  from DecodeRune_bytes_cases [OF d [unfolded bs] assms(2)]
  show ?thesis
  proof
    assume "r = RuneError \<and> n = 1" then show ?thesis by simp
  next
    assume v: "2 \<le> n \<and> EncodeRune r = map char_of (take n ((of_char c :: nat) # map of_char (take 3 cs)))"
    have "take n ?bs = map of_char (take n (take 4 (c # cs)))"
      by (rule take_map)
    also have "take n (take 4 (c # cs)) = take n (c # cs)"
      using sz(1) by (simp only: take_take min_absorb1)
    finally have tk: "take n ?bs = map of_char (take n (c # cs))" .
    have "map char_of (take n ?bs) = take n (c # cs)"
      unfolding tk by (simp add: map_idI)
    then have e: "EncodeRune r = take n (c # cs)" using v bs by simp
    have p: "DecodeRuneInString (take n (c # cs) @ t) = (r, n)" for t
    proof -
      define xs where "xs = take n (c # cs)"
      have l: "length xs = n" using sz by (simp add: xs_def)
      have "take 4 (xs @ t) = xs @ take (4 - n) t"
        using l sz(1) by (simp add: take_append)
      then have "map of_char (take 4 (xs @ t)) = take n ?bs @ (map of_char (take (4 - n) t) :: nat list)"
        unfolding tk xs_def by simp
      then show ?thesis
        unfolding DecodeRuneInString_def xs_def using DecodeRune_bytes_valid_prefix [OF d] v by simp
    qed
    show ?thesis using v e p sz by simp
  qed
qed

subsection \<open>A string literal of the encoder, read by the decoder\<close>

lemma prepend_Inr [simp]: "prepend p (Inr (s, rest)) = Inr (p @ s, rest)"
  by (simp add: prepend_def)

lemma prepend_Inl [simp]: "prepend p (Inl e) = Inl e"
  by (simp add: prepend_def)

lemma hex_val_hex: "n < 16 \<Longrightarrow> hex_val (hex n) = Some n"
proof -
  assume "n < 16"
  then have "n \<in> {0..<16}" by simp
  then show ?thesis
    unfolding atLeastLessThan_upt by (auto simp: hex_def hex_val_def upt_rec)
qed

lemma hex4_hex:
  "a < 16 \<Longrightarrow> b < 16 \<Longrightarrow> c < 16 \<Longrightarrow> d < 16 \<Longrightarrow>
   hex4 4 0 (hex a # hex b # hex c # hex d # t) = Inr (((a * 16 + b) * 16 + c) * 16 + d)"
  by (simp add: eval_nat_numeral hex_val_hex)

lemma hex_0 [simp]: "hex 0 = CHR ''0''" "hex 2 = CHR ''2''" "hex 15 = CHR ''f''" "hex 13 = CHR ''d''"
  by (simp_all add: hex_def)

lemma scan_ascii:
  assumes "(of_char c :: nat) < 0x80"
  shows "scan_string ((if htmlSafeSet (of_char c) then [c] else escape_byte c) @ t)
         = prepend [c] (scan_string t)"
proof (cases "htmlSafeSet (of_char c)")
  case True
  then have "c \<noteq> dquote" "c \<noteq> backslash" "\<not> (of_char c :: nat) < 0x20"
    by (auto simp: htmlSafeSet_def)
  then show ?thesis using True assms by simp
next
  case False
  show ?thesis
  proof (cases "c = backslash \<or> c = dquote \<or> c = CHR 0x08 \<or> c = CHR 0x0C \<or> c = CHR 0x0A
      \<or> c = CHR 0x0D \<or> c = CHR 0x09")
    case True
    then show ?thesis using False by (auto simp: escape_byte_def simple_escape_def)
  next
    case n: False
    define b where "b = (of_char c :: nat)"
    have b: "b < 128" using assms by (simp add: b_def)
    have h: "hex4 4 0 (hex 0 # hex 0 # hex (b div 16) # hex (b mod 16) # t) = Inr (((0 * 16 + 0) * 16 + b div 16) * 16 + b mod 16)"
      using b by (intro hex4_hex) auto
    have h': "hex4 4 0 (CHR ''0'' # CHR ''0'' # hex (b div 16) # hex (b mod 16) # t) = Inr b"
      using h by simp
    have e: "EncodeRune b = [c]" "\<not> IsSurrogate b"
      using b by (auto simp: EncodeRune_def IsSurrogate_def b_def)
    show ?thesis using False n h' e
      by (simp add: escape_byte_def b_def [symmetric])
  qed
qed

lemma scan_202x:
  assumes "r = 0x2028 \<or> r = 0x2029"
  shows "scan_string ([backslash, CHR ''u'', CHR ''2'', CHR ''0'', CHR ''2'', hex (r mod 16)] @ t)
   = prepend (EncodeRune r) (scan_string t)"
proof -
  have m: "r mod 16 < 16" by simp
  have h: "hex4 4 0 (hex 2 # hex 0 # hex 2 # hex (r mod 16) # t) = Inr (((2 * 16 + 0) * 16 + 2) * 16 + r mod 16)"
    by (intro hex4_hex) auto
  have "((2 * 16 + 0) * 16 + 2) * 16 + r mod 16 = r" using assms by auto
  with h have h': "hex4 4 0 (CHR ''2'' # CHR ''0'' # CHR ''2'' # hex (r mod 16) # t) = Inr r"
    by simp
  have "\<not> IsSurrogate r" using assms by (auto simp: IsSurrogate_def)
  then show ?thesis using h' by simp
qed

lemma scan_multibyte:
  assumes "DecodeRuneInString (c # cs) = (r, n)" and "\<not> (of_char c :: nat) < 0x80"
    and "\<not> (r = RuneError \<and> n = 1)"
  shows "scan_string (take n (c # cs) @ t) = prepend (take n (c # cs)) (scan_string t)"
proof -
  from DecodeRuneInString_cases [OF assms(1,2)] assms(3)
  have v: "2 \<le> n" "n \<le> length (c # cs)" "EncodeRune r = take n (c # cs)"
    "DecodeRuneInString (take n (c # cs) @ t) = (r, n)"
    by auto
  obtain m where n: "n = Suc m" using v(1) by (cases n) auto
  have tk: "take n (c # cs) @ t = c # (take m cs @ t)" by (simp add: n)
  have nq: "c \<noteq> dquote" "c \<noteq> backslash" "\<not> (of_char c :: nat) < 0x20"
    using assms(2) by auto
  have l: "length (take m cs) = m" using v(2) n by simp
  have d: "DecodeRuneInString (c # (take m cs @ t)) = (r, n)" using v(4) tk by simp
  have "scan_string (c # (take m cs @ t))
        = prepend (EncodeRune r) (scan_string (drop (n - 1) (take m cs @ t)))"
    using nq assms(2) d by simp
  also have "drop (n - 1) (take m cs @ t) = t" using l n by simp
  finally show ?thesis using v(3) tk by simp
qed

lemma scan_fffd:
  "scan_string ([CHR 0xEF, CHR 0xBF, CHR 0xBD] @ t)
   = prepend [CHR 0xEF, CHR 0xBF, CHR 0xBD] (scan_string t)"
proof -
  have d: "DecodeRuneInString (CHR 0xEF # [CHR 0xBF, CHR 0xBD]) = (0xFFFD, 3)"
    by (simp add: DecodeRuneInString_def cont_byte_def)
  have "scan_string (take 3 (CHR 0xEF # [CHR 0xBF, CHR 0xBD]) @ t)
        = prepend (take 3 (CHR 0xEF # [CHR 0xBF, CHR 0xBD])) (scan_string t)"
    by (rule scan_multibyte [OF d]) simp_all
  then show ?thesis by simp
qed

lemma scan_string_encode_runes:
  "scan_string (encode_runes s @ dquote # rest) = Inr (coerce_utf8 s, rest)"
proof (induction s rule: encode_runes.induct)
  case 1
  show ?case by simp
next
  case (2 c cs)
  show ?case
  proof (cases "(of_char c :: nat) < 0x80")
    case True
    have enc: "encode_runes (c # cs)
          = (if htmlSafeSet (of_char c) then [c] else escape_byte c) @ encode_runes cs"
      using True by simp
    have co: "coerce_utf8 (c # cs) = c # coerce_utf8 cs"
      using True by simp
    show ?thesis
      unfolding enc co append_assoc scan_ascii [OF True] 2(1) [OF True] by simp
  next
    case False
    obtain r n where d: "DecodeRuneInString (c # cs) = (r, n)" by (cases "DecodeRuneInString (c # cs)")
    show ?thesis
    proof (cases "r = RuneError \<and> n = 1")
      case True
      have enc: "encode_runes (c # cs) = [CHR 0xEF, CHR 0xBF, CHR 0xBD] @ encode_runes cs"
        using False d True by simp
      have co: "coerce_utf8 (c # cs) = [CHR 0xEF, CHR 0xBF, CHR 0xBD] @ coerce_utf8 cs"
        using False d True by simp
      show ?thesis
        unfolding enc co append_assoc scan_fffd 2(2) [OF False refl d [symmetric] True] by simp
    next
      case nerr: False
      from DecodeRuneInString_cases [OF d False] nerr
      have v: "EncodeRune r = take n (c # cs)" by auto
      have ne: "(r, n) \<noteq> (RuneError, 1)" using nerr by simp
      have co: "coerce_utf8 (c # cs) = take n (c # cs) @ coerce_utf8 (drop (n - 1) cs)"
        unfolding coerce_utf8.simps d using False ne by (simp only: if_False snd_conv)
      show ?thesis
      proof (cases "r = 0x2028 \<or> r = 0x2029")
        case True
        have enc: "encode_runes (c # cs)
          = [backslash, CHR ''u'', CHR ''2'', CHR ''0'', CHR ''2'', hex (r mod 16)]
             @ encode_runes (drop (n - 1) cs)"
          unfolding encode_runes.simps d using False nerr True
          by (simp only: if_False if_True Let_def prod.case)
        show ?thesis
          unfolding enc co append_assoc scan_202x [OF True]
            2(3) [OF False refl d [symmetric] nerr True] v by simp
      next
        case n2: False
        have enc: "encode_runes (c # cs) = take n (c # cs) @ encode_runes (drop (n - 1) cs)"
          unfolding encode_runes.simps d using False nerr n2
          by (simp only: if_False if_True Let_def prod.case)
        show ?thesis
          unfolding enc co append_assoc scan_multibyte [OF d False nerr]
            2(4) [OF False refl d [symmetric] nerr n2] by simp
      qed
    qed
  qed
qed

lemma coerce_utf8_valid: "ValidString s \<Longrightarrow> coerce_utf8 s = s"
proof (induction s rule: ValidString.induct)
  case 1
  show ?case by simp
next
  case (2 c cs)
  show ?case
  proof (cases "(of_char c :: nat) < 0x80")
    case True
    then show ?thesis using 2 by simp
  next
    case False
    obtain r n where d: "DecodeRuneInString (c # cs) = (r, n)" by (cases "DecodeRuneInString (c # cs)")
    have nerr: "\<not> (r = RuneError \<and> n = 1)" using 2(3) False d by auto
    from DecodeRuneInString_cases [OF d False] nerr
    have v: "2 \<le> n" "n \<le> length (c # cs)" by auto
    obtain m where n: "n = Suc m" using v(1) by (cases n) auto
    have ne: "(r, n) \<noteq> (RuneError, 1)" using nerr by simp
    have co: "coerce_utf8 (c # cs) = take n (c # cs) @ coerce_utf8 (drop (n - 1) cs)"
      unfolding coerce_utf8.simps d using False ne by (simp only: if_False snd_conv)
    have "ValidString (drop (n - 1) cs)" using 2(3) False d by simp
    then have "coerce_utf8 (drop (n - 1) cs) = drop (n - 1) cs"
      using 2(2) [OF False] d by simp
    then show ?thesis unfolding co n by simp
  qed
qed

subsection \<open>An integer of the encoder, read by the decoder\<close>

declare digits.simps [simp del]

lemma isDigit_char_of: "d < 10 \<Longrightarrow> isDigit (char_of (48 + d :: nat))"
  by (simp add: isDigit_def)

lemma of_char_digit: "d < 10 \<Longrightarrow> (of_char (char_of (48 + d :: nat)) :: nat) = 48 + d"
  by simp

lemma digits_all: "list_all isDigit (digits n)"
proof (induction n rule: digits.induct)
  case (1 n)
  show ?case
  proof (cases "n < 10")
    case True
    then show ?thesis by (subst digits.simps) (simp add: isDigit_char_of)
  next
    case False
    then show ?thesis using 1 by (subst digits.simps) (simp add: isDigit_char_of)
  qed
qed

lemma digits_nonempty: "digits n \<noteq> []"
  by (subst digits.simps) simp

lemma digits_val_snoc: "digits_val acc (xs @ [c]) = digits_val acc xs * 10 + (of_char c - 48)"
  by (induction xs arbitrary: acc) auto

lemma digits_val_digits: "digits_val 0 (digits n) = n"
proof (induction n rule: digits.induct)
  case (1 n)
  show ?case
  proof (cases "n < 10")
    case True
    then show ?thesis by (subst digits.simps) simp
  next
    case False
    have "digits n = digits (n div 10) @ [char_of (48 + n mod 10)]"
      using False by (subst digits.simps) simp
    then show ?thesis using 1 [OF False] by (simp add: digits_val_snoc)
  qed
qed

lemma digits_hd: "0 < n \<Longrightarrow> \<exists>c cs. digits n = c # cs \<and> c \<noteq> CHR ''0'' \<and> isDigit c \<and> c \<noteq> CHR ''-''"
proof (induction n rule: digits.induct)
  case (1 n)
  show ?case
  proof (cases "n < 10")
    case True
    have "char_of (48 + n) \<noteq> CHR ''0''" "char_of (48 + n) \<noteq> CHR ''-''"
      using True 1(2) by (auto simp: char_of_eq_iff take_bit_eq_mod)
    then show ?thesis using True by (subst digits.simps) (simp add: isDigit_char_of)
  next
    case False
    then have "0 < n div 10" by auto
    from 1(1) [OF False this] obtain c cs where "digits (n div 10) = c # cs"
      "c \<noteq> CHR ''0''" "isDigit c" "c \<noteq> CHR ''-''" by blast
    then show ?thesis using False by (subst digits.simps) simp
  qed
qed

lemma digits_0: "digits 0 = ''0''"
  by (subst digits.simps) (simp, rule of_char_eqI [where ?'a = nat], simp)

lemma span_digits_append:
  "list_all isDigit ds \<Longrightarrow> (rest = [] \<or> \<not> isDigit (hd rest)) \<Longrightarrow> span_digits (ds @ rest) = (ds, rest)"
proof (induction ds)
  case Nil
  then show ?case by (cases rest) auto
next
  case (Cons d ds)
  then show ?case by simp
qed

lemma scan_int_part_digits:
  assumes "rest = [] \<or> \<not> isDigit (hd rest)"
  shows "scan_int_part (digits n @ rest) = Inr (digits n, rest)"
proof (cases "n = 0")
  case True
  then show ?thesis by (simp add: digits_0 scan_int_part_def)
next
  case False
  then obtain c cs where d: "digits n = c # cs" "c \<noteq> CHR ''0''" "isDigit c"
    using digits_hd [of n] by auto
  have "span_digits (digits n @ rest) = (digits n, rest)"
    using span_digits_append [OF digits_all assms] .
  then show ?thesis using d by (simp add: scan_int_part_def)
qed

lemma scan_number_FormatInt:
  assumes "t = c # t'" and "c = CHR '','' \<or> c = CHR ''}''"
  shows "scan_number (FormatInt i @ t) = Inr (FormatInt i, t)"
proof -
  have nd: "t = [] \<or> \<not> isDigit (hd t)" using assms by (auto simp: isDigit_def)
  have fr: "scan_frac t = Inr ([], t)" using assms by (auto simp: scan_frac_def)
  have ex: "scan_exp t = Inr ([], t)" using assms by (auto simp: scan_exp_def)
  show ?thesis
  proof (cases "i < 0")
    case True
    have "scan_int_part (digits (nat (- i)) @ t) = Inr (digits (nat (- i)), t)"
      using scan_int_part_digits [OF nd] .
    then show ?thesis using True fr ex by (simp add: scan_number_def FormatInt_def)
  next
    case False
    have ip: "scan_int_part (digits (nat i) @ t) = Inr (digits (nat i), t)"
      using scan_int_part_digits [OF nd] .
    obtain d ds where d: "digits (nat i) = d # ds" "d \<noteq> CHR ''-''"
    proof (cases "nat i = 0")
      case True
      then show ?thesis using that by (simp add: digits_0)
    next
      case False
      then show ?thesis using that digits_hd [of "nat i"] by auto
    qed
    have "scan_number (d # ds @ t) = Inr (d # ds, t)"
      using ip fr ex d by (simp add: scan_number_def)
    then show ?thesis using False d by (simp add: FormatInt_def)
  qed
qed

lemma ParseInt_FormatInt:
  assumes "- (2 ^ 63) \<le> i" and "i < 2 ^ 63"
  shows "ParseInt (FormatInt i) = Some i"
proof (cases "i < 0")
  case True
  then show ?thesis using assms
    by (simp add: ParseInt_def FormatInt_def digits_nonempty digits_all digits_val_digits)
next
  case False
  obtain d ds where d: "digits (nat i) = d # ds" "d \<noteq> CHR ''-''"
  proof (cases "nat i = 0")
    case True
    then show ?thesis using that by (simp add: digits_0)
  next
    case False
    then show ?thesis using that digits_hd [of "nat i"] by auto
  qed
  have "list_all isDigit (d # ds)" "digits_val 0 (d # ds) = nat i"
    using digits_all [of "nat i"] digits_val_digits [of "nat i"] d by simp_all
  then show ?thesis using False assms d
    by (simp add: ParseInt_def FormatInt_def)
qed

lemma ParseInt_FormatInt_sint: "ParseInt (FormatInt (sint (w :: int64))) = Some (sint w)"
proof -
  have "- (2 ^ 63) \<le> sint w" "sint w < 2 ^ 63"
    using sint_ge [of w] sint_lt [of w] by simp_all
  then show ?thesis by (rule ParseInt_FormatInt)
qed

subsection \<open>The serialized record, read by the decoder\<close>

lemma scan_string_plain: "list_all plain k \<Longrightarrow> scan_string (k @ dquote # t) = Inr (k, t)"
  by (induction k) (auto simp: plain_def)

lemmas parse_simps = parse_value.simps parse_elems.simps parse_members.simps

declare parse_value.simps [simp del] parse_elems.simps [simp del] parse_members.simps [simp del]

lemma maxNestingDepth_small [simp]:
  "0 < maxNestingDepth" "Suc 0 < maxNestingDepth" "Suc (Suc 0) < maxNestingDepth"
  "\<not> maxNestingDepth \<le> Suc 0" "\<not> maxNestingDepth \<le> Suc (Suc 0)" "maxNestingDepth \<noteq> 0"
  by (simp_all add: maxNestingDepth_def)

lemma parse_value_string:
  "parse_value (Suc n) dp (encodeString s @ t) = Inr (JString (coerce_utf8 s), t)"
  by (simp add: parse_simps encodeString_def isSpace_def scan_string_encode_runes)

lemma FormatInt_hd: "\<exists>c cs. FormatInt i = c # cs \<and> (c = CHR ''-'' \<or> isDigit c) \<and> \<not> isSpace c
    \<and> c \<noteq> CHR ''{'' \<and> c \<noteq> CHR ''['' \<and> c \<noteq> dquote"
proof (cases "i < 0")
  case True
  then show ?thesis by (simp add: FormatInt_def isSpace_def)
next
  case False
  obtain d ds where d: "digits (nat i) = d # ds" "isDigit d"
    using digits_all [of "nat i"] digits_nonempty [of "nat i"] by (cases "digits (nat i)") auto
  then show ?thesis using False by (auto simp: FormatInt_def isSpace_def isDigit_def)
qed

lemma parse_value_int:
  assumes "c = CHR '','' \<or> c = CHR ''}''"
  shows "parse_value (Suc n) dp (FormatInt i @ c # t) = Inr (JNumber (FormatInt i), c # t)"
proof -
  obtain d ds where d: "FormatInt i = d # ds" "d = CHR ''-'' \<or> isDigit d" "\<not> isSpace d"
    "d \<noteq> CHR ''{''" "d \<noteq> CHR ''[''" "d \<noteq> dquote"
    using FormatInt_hd [of i] by blast
  have "scan_number (FormatInt i @ c # t) = Inr (FormatInt i, c # t)"
    using scan_number_FormatInt [OF refl assms] .
  then have "scan_number (d # ds @ c # t) = Inr (d # ds, c # t)" using d(1) by simp
  then show ?thesis using d by (simp add: parse_simps)
qed

lemma parse_value_bool:
  "parse_value (Suc n) dp (encodeBool b @ t) = Inr (JBool b, t)"
  by (simp add: parse_simps encodeBool_def isSpace_def isDigit_def)

lemma parse_elems_strings:
  "xs \<noteq> [] \<Longrightarrow>
   parse_elems (Suc (length xs) + k) dp acc (join_comma (map encodeString xs) @ CHR '']'' # t)
   = Inr (acc @ map (\<lambda>x. JString (coerce_utf8 x)) xs, t)"
proof (induction xs arbitrary: acc)
  case Nil
  then show ?case by simp
next
  case (Cons x xs)
  show ?case
  proof (cases xs)
    case Nil
    then show ?thesis by (simp add: parse_elems.simps parse_value_string isSpace_def)
  next
    case (Cons y ys)
    have "parse_elems (Suc (length xs) + k) dp (acc @ [JString (coerce_utf8 x)])
            (join_comma (map encodeString xs) @ CHR '']'' # t)
          = Inr ((acc @ [JString (coerce_utf8 x)]) @ map (\<lambda>x. JString (coerce_utf8 x)) xs, t)"
      using Cons.IH [of "acc @ [JString (coerce_utf8 x)]"] Cons by simp
    then show ?thesis using Cons
      by (simp add: parse_elems.simps parse_value_string isSpace_def)
  qed
qed

lemma parse_value_StringArray:
  assumes dp: "dp < maxNestingDepth"
  shows "parse_value (Suc (Suc (length (elems a))) + k) dp (encodeStringArray a @ t) = Inr (json_of_StringArray a, t)"
proof (cases a)
  case NilArray
  then show ?thesis by (simp add: parse_value.simps encodeStringArray_def isSpace_def isDigit_def)
next
  case (Array xs)
  show ?thesis
  proof (cases xs)
    case Nil
    then show ?thesis using Array dp by (simp add: parse_value.simps encodeStringArray_def isSpace_def isDigit_def)
  next
    case (Cons y ys)
    obtain cs where c: "encodeString y = dquote # cs" by (simp add: encodeString_def)
    have j: "join_comma (map encodeString xs) = dquote # cs @ (if ys = [] then [] else '','' @ join_comma (map encodeString ys))"
      using Cons c by (cases ys) auto
    have "parse_elems (Suc (length xs) + k) (Suc dp) [] (join_comma (map encodeString xs) @ CHR '']'' # t)
          = Inr ([] @ map (\<lambda>x. JString (coerce_utf8 x)) xs, t)"
      using parse_elems_strings [of xs k "Suc dp" "[]" t] Cons by simp
    then show ?thesis using Array dp
      by (simp add: parse_value.simps encodeStringArray_def isSpace_def j)
  qed
qed

lemma members_string:
  "list_all plain k \<Longrightarrow>
   parse_members (Suc (Suc n)) dp acc (encodeKey k @ encodeString s @ CHR '','' # t)
   = parse_members (Suc n) dp (acc @ [(k, JString (coerce_utf8 s))]) t"
  by (simp add: parse_members.simps encodeKey_def isSpace_def scan_string_plain parse_value_string)

lemma members_int:
  "list_all plain k \<Longrightarrow>
   parse_members (Suc (Suc n)) dp acc (encodeKey k @ FormatInt i @ CHR '','' # t)
   = parse_members (Suc n) dp (acc @ [(k, JNumber (FormatInt i))]) t"
  by (simp add: parse_members.simps encodeKey_def isSpace_def scan_string_plain parse_value_int)

lemma members_array:
  "list_all plain k \<Longrightarrow> dp < maxNestingDepth \<Longrightarrow>
   parse_members (Suc (Suc (Suc (Suc (length (elems a) + j))))) dp acc
     (encodeKey k @ encodeStringArray a @ CHR '','' # t)
   = parse_members (Suc (Suc (Suc (length (elems a) + j)))) dp (acc @ [(k, json_of_StringArray a)]) t"
  using parse_value_StringArray [of dp a "Suc j" "CHR '','' # t"]
  by (simp add: parse_members.simps encodeKey_def isSpace_def scan_string_plain)

lemma members_bool_last:
  "list_all plain k \<Longrightarrow>
   parse_members (Suc (Suc n)) dp acc (encodeKey k @ encodeBool b @ CHR ''}'' # t)
   = Inr (acc @ [(k, JBool b)], t)"
  by (simp add: parse_members.simps encodeKey_def isSpace_def scan_string_plain parse_value_bool)

lemma parse_value_object:
  "dp < maxNestingDepth \<Longrightarrow>
   parse_value (Suc n) dp (CHR ''{'' # encodeKey k @ t)
   = (case parse_members n (Suc dp) [] (encodeKey k @ t) of
        Inl e \<Rightarrow> Inl e
      | Inr (ms, rest) \<Rightarrow> Inr (JObject ms, rest))"
  by (simp add: parse_value.simps encodeKey_def isSpace_def)

lemma parse_value_ToJson:
  "Suc dp < maxNestingDepth \<Longrightarrow>
   parse_value (Suc (Suc (Suc (Suc (Suc (Suc (Suc (Suc (Suc (Suc (Suc (Suc (Suc
      (length (elems (CallbackUrls a)) + j)))))))))))))) dp (ToJson a @ t)
   = Inr (json_of_OAuthApp a, t)"
  by (simp add: ToJson_def Marshal_def parse_value_object members_string members_int members_array
        members_bool_last plain_def json_of_OAuthApp_def)

lemma unmarshal_strings_coerced:
  "unmarshal_strings (map (\<lambda>x. JString (coerce_utf8 x)) xs) slots = Inr (map coerce_utf8 xs)"
  by (induction xs arbitrary: slots) (simp_all add: unmarshal_string_def)

lemma unmarshal_StringArray_json_of:
  "unmarshal_StringArray (json_of_StringArray a) (NilArray, []) = Inr (coerce_StringArray a, [])"
  by (cases a) (simp_all add: unmarshal_StringArray_def unmarshal_strings_coerced)

lemma unmarshal_int64_FormatInt:
  "unmarshal_int64 (JNumber (FormatInt (sint w))) cur = Inr w"
  by (simp add: unmarshal_int64_def ParseInt_FormatInt_sint)

lemma find_field_names:
  "find_field ''id'' = Some ''id''"
  "find_field ''creator_id'' = Some ''creator_id''"
  "find_field ''create_at'' = Some ''create_at''"
  "find_field ''update_at'' = Some ''update_at''"
  "find_field ''client_secret'' = Some ''client_secret''"
  "find_field ''name'' = Some ''name''"
  "find_field ''description'' = Some ''description''"
  "find_field ''icon_url'' = Some ''icon_url''"
  "find_field ''callback_urls'' = Some ''callback_urls''"
  "find_field ''homepage'' = Some ''homepage''"
  "find_field ''is_trusted'' = Some ''is_trusted''"
  by (simp_all add: find_field_def field_names_def)

lemma unmarshal_json_of_OAuthApp:
  "unmarshal_OAuthApp (json_of_OAuthApp a) zero_OAuthApp = Inr (coerce_OAuthApp a)"
  by (cases a)
     (simp add: unmarshal_OAuthApp_def json_of_OAuthApp_def find_field_names set_field.simps
        unmarshal_string_def unmarshal_int64_FormatInt unmarshal_bool_def
        unmarshal_StringArray_json_of zero_OAuthApp_def coerce_OAuthApp_def)

lemma length_join_comma: "length xs \<le> length (join_comma (map encodeString xs)) + 1"
  by (induction xs rule: join_comma.induct) (auto simp: encodeString_def)

lemma length_encodeStringArray: "length (elems a) \<le> length (encodeStringArray a)"
  using length_join_comma [of "elems a"] by (cases a) (auto simp: encodeStringArray_def)

lemma length_ToJson: "length (elems (CallbackUrls a)) + 7 \<le> length (ToJson a)"
  using length_encodeStringArray [of "CallbackUrls a"]
  by (simp add: ToJson_def Marshal_def encodeKey_def)

lemma ToJson_nonspace: "skip_space (ToJson a) \<noteq> []"
  by (simp add: ToJson_def Marshal_def isSpace_def)

lemma Decode_value_ToJson: "Decode_value (ToJson a) = Inr (json_of_OAuthApp a)"
proof -
  let ?L = "length (elems (CallbackUrls a))"
  have "?L + 13 \<le> 2 * length (ToJson a) + 2" using length_ToJson [of a] by arith
  then obtain j where j: "2 * length (ToJson a) + 2 = ?L + j + 13"
    by (metis add.assoc add.commute le_Suc_ex)
  have "parse_value (2 * length (ToJson a) + 2) 0 (ToJson a @ []) = Inr (json_of_OAuthApp a, [])"
    unfolding j using parse_value_ToJson [of 0 a j "[]"]
    by (simp add: eval_nat_numeral)
  then show ?thesis using ToJson_nonspace [of a] by (simp add: Decode_value_def)
qed

lemma OAuthAppFromJson_ToJson: "OAuthAppFromJson (ToJson a) = Some (coerce_OAuthApp a)"
  by (simp add: OAuthAppFromJson_def Decode_OAuthApp_def Decode_value_ToJson unmarshal_json_of_OAuthApp)

subsection \<open>The parser consumes its input and has fuel enough\<close>



lemma prepend_eq_Inr: "prepend p r = Inr (str, rest) \<Longrightarrow> \<exists>str'. r = Inr (str', rest)"
  by (cases r) (auto simp: prepend_def)





lemma span_digits_snd: "length (snd (span_digits s)) \<le> length s"
  by (induction s) (auto split: prod.splits)

lemma span_digits_rest: "span_digits s = (ds, rest) \<Longrightarrow> length rest \<le> length s"
  using span_digits_snd [of s] by simp

lemma scan_digits1_rest: "scan_digits1 s = Inr (ds, rest) \<Longrightarrow> length rest \<le> length s"
proof -
  assume a: "scan_digits1 s = Inr (ds, rest)"
  then have "span_digits s = (ds, rest)"
    by (auto simp: scan_digits1_def split: list.splits if_splits simp del: span_digits.simps)
  then show ?thesis by (rule span_digits_rest)
qed

lemma scan_int_part_rest: "scan_int_part s = Inr (ds, rest) \<Longrightarrow> length rest < length s"
proof (cases s)
  case Nil
  assume "scan_int_part s = Inr (ds, rest)"
  then show ?thesis using Nil by (simp add: scan_int_part_def)
next
  case (Cons c cs)
  assume a: "scan_int_part s = Inr (ds, rest)"
  show ?thesis
  proof (cases "c = CHR ''0''")
    case True
    then show ?thesis using a Cons by (auto simp: scan_int_part_def)
  next
    case False
    then have "isDigit c" "span_digits (c # cs) = (ds, rest)"
      using a Cons by (auto simp: scan_int_part_def split: if_splits)
    then obtain ds' where "span_digits cs = (ds', rest)"
      by (auto split: prod.splits)
    from span_digits_rest [OF this] show ?thesis using Cons by simp
  qed
qed

lemma scan_frac_rest: "scan_frac s = Inr (ds, rest) \<Longrightarrow> length rest \<le> length s"
  by (auto simp: scan_frac_def split: list.splits if_splits
      dest!: prepend_eq_Inr scan_digits1_rest)

lemma scan_exp_rest: "scan_exp s = Inr (ds, rest) \<Longrightarrow> length rest \<le> length s"
  by (auto simp: scan_exp_def split: list.splits if_splits
      dest!: prepend_eq_Inr scan_digits1_rest)









subsection \<open>The round trip\<close>

lemma coerce_StringArray_valid: "list_all ValidString (elems a) \<Longrightarrow> coerce_StringArray a = a"
  by (cases a) (simp_all add: list_all_iff map_idI coerce_utf8_valid)

lemma coerce_OAuthApp_valid: "ValidStrings a \<Longrightarrow> coerce_OAuthApp a = a"
  by (simp add: ValidStrings_def coerce_OAuthApp_def coerce_utf8_valid coerce_StringArray_valid)

text \<open>
  C3. Deserializing the serialization of a record yields the record with its strings
  coerced to well-formed UTF-8, and so the record itself, equal in all eleven fields,
  when every string of the record (the callback URLs among them) is well-formed UTF-8.
  The timestamps, \<open>IsTrusted\<close>, the order of the callback URLs and the difference
  between a \<open>nil\<close> and an empty list of them always come back as they were.
\<close>

theorem FromJson_ToJson_round_trip:
  "OAuthAppFromJson (ToJson a) = Some (coerce_OAuthApp a)
   \<and> (ValidStrings a \<longrightarrow> OAuthAppFromJson (ToJson a) = Some a)"
  by (simp add: OAuthAppFromJson_ToJson coerce_OAuthApp_valid)

text \<open>
  Without that condition the round trip is not the identity: a record that \<open>IsValid\<close>
  accepts and whose name is the single byte \<open>0xFF\<close> comes back with the name
  U+FFFD, three bytes long.
\<close>

lemma DecodeRuneInString_FF: "DecodeRuneInString [CHR 0xFF] = (RuneError, Suc 0)"
  by (simp add: DecodeRuneInString_def)

theorem FromJson_ToJson_counterexample:
  "IsValid (\<lambda>u. take 8 u = ''https://'')
       \<lparr>Id = ''abcdefghijklmnopqrstuvwxyz'', CreatorId = ''zyxwvutsrqponmlkjihgfedcba'',
        CreateAt = 1000, UpdateAt = 2000, ClientSecret = ''secret'', Name = [CHR 0xFF],
        Description = '''', IconURL = '''', CallbackUrls = Array [''https://example.com/cb''],
        Homepage = ''https://example.com'', IsTrusted = False\<rparr> = None
   \<and> OAuthAppFromJson (ToJson
       \<lparr>Id = ''abcdefghijklmnopqrstuvwxyz'', CreatorId = ''zyxwvutsrqponmlkjihgfedcba'',
        CreateAt = 1000, UpdateAt = 2000, ClientSecret = ''secret'', Name = [CHR 0xFF],
        Description = '''', IconURL = '''', CallbackUrls = Array [''https://example.com/cb''],
        Homepage = ''https://example.com'', IsTrusted = False\<rparr>)
     = Some
       \<lparr>Id = ''abcdefghijklmnopqrstuvwxyz'', CreatorId = ''zyxwvutsrqponmlkjihgfedcba'',
        CreateAt = 1000, UpdateAt = 2000, ClientSecret = ''secret'', Name = [CHR 0xEF, CHR 0xBF, CHR 0xBD],
        Description = '''', IconURL = '''', CallbackUrls = Array [''https://example.com/cb''],
        Homepage = ''https://example.com'', IsTrusted = False\<rparr>
   \<and> OAuthAppFromJson (ToJson
       \<lparr>Id = ''abcdefghijklmnopqrstuvwxyz'', CreatorId = ''zyxwvutsrqponmlkjihgfedcba'',
        CreateAt = 1000, UpdateAt = 2000, ClientSecret = ''secret'', Name = [CHR 0xFF],
        Description = '''', IconURL = '''', CallbackUrls = Array [''https://example.com/cb''],
        Homepage = ''https://example.com'', IsTrusted = False\<rparr>)
     \<noteq> Some
       \<lparr>Id = ''abcdefghijklmnopqrstuvwxyz'', CreatorId = ''zyxwvutsrqponmlkjihgfedcba'',
        CreateAt = 1000, UpdateAt = 2000, ClientSecret = ''secret'', Name = [CHR 0xFF],
        Description = '''', IconURL = '''', CallbackUrls = Array [''https://example.com/cb''],
        Homepage = ''https://example.com'', IsTrusted = False\<rparr>"
proof -
  let ?a = "\<lparr>Id = ''abcdefghijklmnopqrstuvwxyz'', CreatorId = ''zyxwvutsrqponmlkjihgfedcba'',
        CreateAt = 1000 :: int64, UpdateAt = 2000 :: int64, ClientSecret = ''secret'', Name = [CHR 0xFF],
        Description = '''', IconURL = '''', CallbackUrls = Array [''https://example.com/cb''],
        Homepage = ''https://example.com'', IsTrusted = False\<rparr>"
  have v: "IsValid (\<lambda>u. take 8 u = ''https://'') ?a = None"
    by (simp add: IsValid_def Sprintf_s_def)
  have c: "coerce_OAuthApp ?a = ?a\<lparr>Name := [CHR 0xEF, CHR 0xBF, CHR 0xBD]\<rparr>"
    by (simp add: coerce_OAuthApp_def DecodeRuneInString_FF)
  show ?thesis using v c OAuthAppFromJson_ToJson [of ?a] by simp
qed

text \<open>A record with a two-byte character in its name and a \<open><\<close> in its description comes back as it was.\<close>

theorem FromJson_ToJson_round_trip_witness:
  "ValidStrings
       \<lparr>Id = ''abcdefghijklmnopqrstuvwxyz'', CreatorId = ''zyxwvutsrqponmlkjihgfedcba'',
        CreateAt = 1000, UpdateAt = 2000, ClientSecret = ''secret'', Name = [CHR ''c'', CHR ''a'', CHR ''f'', CHR 0xC3, CHR 0xA9],
        Description = ''<b>'', IconURL = '''', CallbackUrls = Array [''https://example.com/cb''],
        Homepage = ''https://example.com'', IsTrusted = True\<rparr>
   \<and> OAuthAppFromJson (ToJson
       \<lparr>Id = ''abcdefghijklmnopqrstuvwxyz'', CreatorId = ''zyxwvutsrqponmlkjihgfedcba'',
        CreateAt = 1000, UpdateAt = 2000, ClientSecret = ''secret'', Name = [CHR ''c'', CHR ''a'', CHR ''f'', CHR 0xC3, CHR 0xA9],
        Description = ''<b>'', IconURL = '''', CallbackUrls = Array [''https://example.com/cb''],
        Homepage = ''https://example.com'', IsTrusted = True\<rparr>)
     = Some
       \<lparr>Id = ''abcdefghijklmnopqrstuvwxyz'', CreatorId = ''zyxwvutsrqponmlkjihgfedcba'',
        CreateAt = 1000, UpdateAt = 2000, ClientSecret = ''secret'', Name = [CHR ''c'', CHR ''a'', CHR ''f'', CHR 0xC3, CHR 0xA9],
        Description = ''<b>'', IconURL = '''', CallbackUrls = Array [''https://example.com/cb''],
        Homepage = ''https://example.com'', IsTrusted = True\<rparr>"
proof -
  let ?a = "\<lparr>Id = ''abcdefghijklmnopqrstuvwxyz'', CreatorId = ''zyxwvutsrqponmlkjihgfedcba'',
        CreateAt = 1000 :: int64, UpdateAt = 2000 :: int64, ClientSecret = ''secret'',
        Name = [CHR ''c'', CHR ''a'', CHR ''f'', CHR 0xC3, CHR 0xA9],
        Description = ''<b>'', IconURL = '''', CallbackUrls = Array [''https://example.com/cb''],
        Homepage = ''https://example.com'', IsTrusted = True\<rparr>"
  have h: "ValidStrings ?a"
    by (simp add: ValidStrings_def DecodeRuneInString_def RuneError_def cont_byte_def)
  from FromJson_ToJson_round_trip [of ?a] h show ?thesis by blast
qed

subsection \<open>The entity tag\<close>

text \<open>
  C7. \<open>Etag\<close> is the outside function applied to the record's current \<open>Id\<close> and
  \<open>UpdateAt\<close>, and to nothing else: two records that agree on both have the same
  tag. When the outside function is injective in the timestamp, as its contract says,
  a change of \<open>UpdateAt\<close> changes the tag.
\<close>

theorem Etag_of_current_fields:
  "Etag computeEtag a = computeEtag (Id a) (UpdateAt a)
   \<and> (Id a = Id b \<and> UpdateAt a = UpdateAt b \<longrightarrow> Etag computeEtag a = Etag computeEtag b)
   \<and> ((\<forall>i. inj (computeEtag i)) \<and> UpdateAt a \<noteq> t \<longrightarrow>
        Etag computeEtag (a\<lparr>UpdateAt := t\<rparr>) \<noteq> Etag computeEtag a)"
  by (auto simp: Etag_def dest: injD)

text \<open>
  A tag made of the id, a dot and the timestamp in decimal is injective in the
  timestamp; with it, stamping 2001 over 2000 changes the tag.
\<close>

lemma FormatInt_sint_inj: "inj (\<lambda>t :: int64. FormatInt (sint t))"
proof (rule injI)
  fix x y :: int64
  assume "FormatInt (sint x) = FormatInt (sint y)"
  then have "ParseInt (FormatInt (sint x)) = ParseInt (FormatInt (sint y))" by simp
  then have "sint x = sint y" by (simp add: ParseInt_FormatInt_sint)
  then have "(word_of_int (sint x) :: int64) = word_of_int (sint y)" by simp
  then show "x = y" by simp
qed

theorem Etag_of_current_fields_witness:
  "(\<forall>i. inj (\<lambda>t :: int64. i @ ''.'' @ FormatInt (sint t)))
   \<and> Etag (\<lambda>i t. i @ ''.'' @ FormatInt (sint t))
        \<lparr>Id = ''abcdefghijklmnopqrstuvwxyz'', CreatorId = ''zyxwvutsrqponmlkjihgfedcba'',
         CreateAt = 1000, UpdateAt = 2000, ClientSecret = ''secret'', Name = ''app'',
         Description = '''', IconURL = '''', CallbackUrls = Array [''https://example.com/cb''],
         Homepage = ''https://example.com'', IsTrusted = False\<rparr>
      = ''abcdefghijklmnopqrstuvwxyz.'' @ FormatInt 2000
   \<and> Etag (\<lambda>i t. i @ ''.'' @ FormatInt (sint t))
        \<lparr>Id = ''abcdefghijklmnopqrstuvwxyz'', CreatorId = ''zyxwvutsrqponmlkjihgfedcba'',
         CreateAt = 1000, UpdateAt = 2001, ClientSecret = ''secret'', Name = ''app'',
         Description = '''', IconURL = '''', CallbackUrls = Array [''https://example.com/cb''],
         Homepage = ''https://example.com'', IsTrusted = False\<rparr>
      \<noteq> Etag (\<lambda>i t. i @ ''.'' @ FormatInt (sint t))
        \<lparr>Id = ''abcdefghijklmnopqrstuvwxyz'', CreatorId = ''zyxwvutsrqponmlkjihgfedcba'',
         CreateAt = 1000, UpdateAt = 2000, ClientSecret = ''secret'', Name = ''app'',
         Description = '''', IconURL = '''', CallbackUrls = Array [''https://example.com/cb''],
         Homepage = ''https://example.com'', IsTrusted = False\<rparr>"
proof -
  let ?f = "\<lambda>i (t :: int64). i @ ''.'' @ FormatInt (sint t)"
  let ?a = "\<lparr>Id = ''abcdefghijklmnopqrstuvwxyz'', CreatorId = ''zyxwvutsrqponmlkjihgfedcba'',
         CreateAt = 1000 :: int64, UpdateAt = 2000 :: int64, ClientSecret = ''secret'', Name = ''app'',
         Description = '''', IconURL = '''', CallbackUrls = Array [''https://example.com/cb''],
         Homepage = ''https://example.com'', IsTrusted = False\<rparr>"
  have h: "\<forall>i. inj (?f i)"
    using FormatInt_sint_inj by (auto simp: inj_def)
  have n: "UpdateAt ?a \<noteq> 2001" by simp
  from Etag_of_current_fields [of ?f ?a ?a 2001] h n
  show ?thesis by (simp add: Etag_def)
qed

subsection \<open>What follows the first value, and a value that is cut off\<close>

lemma prepend_eq_Inr2: "prepend p x = Inr (s, r) \<Longrightarrow> \<exists>s'. x = Inr (s', r) \<and> s = p @ s'"
  by (cases x) (auto simp: prepend_def)

lemma skip_space_append: "skip_space p = c # cs \<Longrightarrow> skip_space (p @ q) = c # cs @ q"
  by (induction p) (auto split: if_splits)

lemma hex4_append: "hex4 n acc p = Inr v \<Longrightarrow> hex4 n acc (p @ q) = Inr v \<and> n \<le> length p"
  by (induction n acc p rule: hex4.induct) (auto split: option.splits)

lemma scan_literal_append:
  "scan_literal l v p = Inr (v', r) \<Longrightarrow> scan_literal l v (p @ q) = Inr (v', r @ q)"
  by (induction l v p rule: scan_literal.induct) (auto split: if_splits)

lemma span_digits_append2:
  "span_digits p = (ds, r) \<Longrightarrow> r \<noteq> [] \<Longrightarrow> span_digits (p @ q) = (ds, r @ q)"
  by (induction p arbitrary: ds) (auto split: if_splits prod.splits)

lemma scan_digits1_append:
  assumes "scan_digits1 p = Inr (ds, r)" and "r \<noteq> []"
  shows "scan_digits1 (p @ q) = Inr (ds, r @ q)"
proof -
  obtain c cs where p: "p = c # cs" "isDigit c" "span_digits p = (ds, r)"
    using assms(1) by (auto simp: scan_digits1_def split: list.splits if_splits simp del: span_digits.simps)
  from span_digits_append2 [OF p(3) assms(2)] p(1,2) show ?thesis
    by (simp add: scan_digits1_def del: span_digits.simps)
qed

lemma scan_int_part_append:
  assumes "scan_int_part p = Inr (ds, r)" and "r \<noteq> []"
  shows "scan_int_part (p @ q) = Inr (ds, r @ q)"
proof -
  obtain c cs where p: "p = c # cs" using assms(1) by (cases p) (auto simp: scan_int_part_def)
  show ?thesis
  proof (cases "c = CHR ''0''")
    case True
    then show ?thesis using assms p by (auto simp: scan_int_part_def)
  next
    case False
    then have "isDigit c" "span_digits p = (ds, r)"
      using assms(1) p by (auto simp: scan_int_part_def split: if_splits simp del: span_digits.simps)
    with span_digits_append2 [OF this(2) assms(2)] p False show ?thesis
      by (simp add: scan_int_part_def del: span_digits.simps)
  qed
qed

lemma scan_frac_append:
  assumes "scan_frac p = Inr (ds, r)" and "r \<noteq> []"
  shows "scan_frac (p @ q) = Inr (ds, r @ q)"
proof (cases p)
  case Nil
  then show ?thesis using assms by (simp add: scan_frac_def)
next
  case (Cons c cs)
  show ?thesis
  proof (cases "c = CHR ''.''")
    case True
    then obtain ds' where "scan_digits1 cs = Inr (ds', r)" "ds = [c] @ ds'"
      using assms(1) Cons by (auto simp: scan_frac_def dest!: prepend_eq_Inr2)
    then show ?thesis using scan_digits1_append [OF _ assms(2)] Cons True
      by (simp add: scan_frac_def)
  next
    case False
    then show ?thesis using assms Cons by (auto simp: scan_frac_def)
  qed
qed

lemma scan_exp_append:
  assumes "scan_exp p = Inr (ds, r)" and "r \<noteq> []"
  shows "scan_exp (p @ q) = Inr (ds, r @ q)"
proof (cases p)
  case Nil
  then show ?thesis using assms by (simp add: scan_exp_def)
next
  case (Cons c cs)
  show ?thesis
  proof (cases "c = CHR ''e'' \<or> c = CHR ''E''")
    case False
    then show ?thesis using assms Cons by (auto simp: scan_exp_def)
  next
    case True
    show ?thesis
    proof (cases cs)
      case Nil
      then show ?thesis using assms Cons True by (auto simp: scan_exp_def)
    next
      case c2: (Cons d ds2)
      show ?thesis
      proof (cases "d = CHR ''+'' \<or> d = CHR ''-''")
        case s: True
        then obtain ds' where "scan_digits1 ds2 = Inr (ds', r)" "ds = [c, d] @ ds'"
          using assms(1) Cons True c2 by (auto simp: scan_exp_def dest!: prepend_eq_Inr2)
        then show ?thesis using scan_digits1_append [OF _ assms(2)] Cons True c2 s
          by (auto simp: scan_exp_def)
      next
        case s: False
        then obtain ds' where "scan_digits1 cs = Inr (ds', r)" "ds = [c] @ ds'"
          using assms(1) Cons True c2 by (auto simp: scan_exp_def dest!: prepend_eq_Inr2)
        then show ?thesis using scan_digits1_append [OF _ assms(2), of cs ds' q] Cons True c2 s
          by (auto simp: scan_exp_def)
      qed
    qed
  qed
qed

lemma scan_number_append:
  assumes "scan_number p = Inr (lit, r)" and "r \<noteq> []"
  shows "scan_number (p @ q) = Inr (lit, r @ q)"
proof -
  define pre where "pre = (\<lambda>s. case s of c # cs \<Rightarrow> if c = CHR ''-'' then ([c], cs) else ([], s) | [] \<Rightarrow> ([], s))"
  obtain sign s1 where s1: "pre p = (sign, s1)" by (cases "pre p")
  from assms(1) s1 obtain ip s2 fp s3 ep where
    st: "scan_int_part s1 = Inr (ip, s2)" "scan_frac s2 = Inr (fp, s3)" "scan_exp s3 = Inr (ep, r)"
      "lit = sign @ ip @ fp @ ep"
    by (auto simp: scan_number_def pre_def split: sum.splits)
  have n3: "s3 \<noteq> []" using scan_exp_rest [OF st(3)] assms(2) by auto
  have n2: "s2 \<noteq> []" using scan_frac_rest [OF st(2)] n3 by auto
  have n1: "s1 \<noteq> []" using scan_int_part_rest [OF st(1)] by auto
  have pq: "pre (p @ q) = (sign, s1 @ q)"
    using s1 n1 by (cases p) (auto simp: pre_def split: if_splits)
  show ?thesis
    using pq scan_int_part_append [OF st(1) n2] scan_frac_append [OF st(2) n3]
      scan_exp_append [OF st(3) assms(2)] st(4)
    by (simp add: scan_number_def pre_def)
qed

lemma scan_string_high_bytes:
  "list_all (\<lambda>c. \<not> (of_char c :: nat) < 0x80) cs \<Longrightarrow> \<exists>e. scan_string cs = Inl e"
proof (induction "length cs" arbitrary: cs rule: less_induct)
  case less
  show ?case
  proof (cases cs)
    case Nil
    then show ?thesis by simp
  next
    case (Cons c cs')
    have c: "\<not> (of_char c :: nat) < 0x80" using less.prems Cons by simp
    then have nq: "c \<noteq> dquote" "c \<noteq> backslash" "\<not> (of_char c :: nat) < 0x20" by auto
    define k where "k = snd (DecodeRuneInString (c # cs')) - 1"
    have "list_all (\<lambda>c. \<not> (of_char c :: nat) < 0x80) (drop k cs')"
      using less.prems Cons by (auto simp: list_all_iff dest: in_set_dropD)
    moreover have "length (drop k cs') < length cs" using Cons by simp
    ultimately obtain e where "scan_string (drop k cs') = Inl e" using less.hyps by blast
    then show ?thesis using Cons c nq by (simp add: k_def)
  qed
qed

lemma DecodeRune_bytes_high:
  "DecodeRune_bytes bs = (r, m) \<Longrightarrow> 2 \<le> m \<Longrightarrow> list_all (\<lambda>b. \<not> b < 0x80) (take m bs)"
  by (cases bs) (auto simp: cont_byte_def split: if_splits list.splits)

lemma DecodeRuneInString_high:
  assumes "DecodeRuneInString s = (r, m)" and "2 \<le> m"
  shows "list_all (\<lambda>c. \<not> (of_char c :: nat) < 0x80) (take m s)"
proof -
  let ?bs = "map of_char (take 4 s) :: nat list"
  have d: "DecodeRune_bytes ?bs = (r, m)" using assms(1) by (simp add: DecodeRuneInString_def)
  have m4: "m \<le> 4" using DecodeRune_bytes_size [OF d] by simp
  have "take m ?bs = map of_char (take m (take 4 s))" by (rule take_map)
  also have "take m (take 4 s) = take m s" using m4 by (simp only: take_take min_absorb1)
  finally have "take m ?bs = map of_char (take m s)" .
  with DecodeRune_bytes_high [OF d assms(2)] show ?thesis
    by (simp add: list_all_iff)
qed

lemma DecodeRuneInString_append:
  assumes "scan_string (c # cs) = Inr x" and "\<not> (of_char c :: nat) < 0x80"
  shows "DecodeRuneInString (c # cs @ q) = DecodeRuneInString (c # cs)"
proof -
  obtain r n where d: "DecodeRuneInString (c # cs) = (r, n)" by (cases "DecodeRuneInString (c # cs)")
  obtain r' m where d': "DecodeRuneInString (c # (cs @ q)) = (r', m)"
    by (cases "DecodeRuneInString (c # (cs @ q))")
  from DecodeRuneInString_cases [OF d assms(2)]
  show ?thesis
  proof
    assume v: "2 \<le> n \<and> n \<le> length (c # cs) \<and> EncodeRune r = take n (c # cs)
           \<and> (\<forall>t. DecodeRuneInString (take n (c # cs) @ t) = (r, n))"
    then have "DecodeRuneInString (take n (c # cs) @ (drop n (c # cs) @ q)) = (r, n)" by blast
    moreover have "take n (c # cs) @ (drop n (c # cs) @ q) = c # cs @ q"
      by (simp only: append_assoc [symmetric] append_take_drop_id append_Cons)
    ultimately show ?thesis using d by simp
  next
    assume e: "r = RuneError \<and> n = 1"
    from DecodeRuneInString_cases [OF d' assms(2)]
    show ?thesis
    proof
      assume "r' = RuneError \<and> m = 1"
      then show ?thesis using e d d' by simp
    next
      assume v: "2 \<le> m \<and> m \<le> length (c # (cs @ q)) \<and> EncodeRune r' = take m (c # (cs @ q))
           \<and> (\<forall>t. DecodeRuneInString (take m (c # (cs @ q)) @ t) = (r', m))"
      show ?thesis
      proof (cases "m \<le> length (c # cs)")
        case True
        then have "take m (c # (cs @ q)) = take m (c # cs)"
          by (metis append_Cons take_append diff_is_0_eq take_0 append_Nil2)
        with v have "DecodeRuneInString (take m (c # cs) @ drop m (c # cs)) = (r', m)" by metis
        then have "DecodeRuneInString (c # cs) = (r', m)" by (simp only: append_take_drop_id)
        with d e v show ?thesis by simp
      next
        case False
        have h: "list_all (\<lambda>c. \<not> (of_char c :: nat) < 0x80) (take m (c # (cs @ q)))"
          using DecodeRuneInString_high [OF d'] v by blast
        have "take m (c # (cs @ q)) = (c # cs) @ take (m - length (c # cs)) q"
          using False by (metis append_Cons take_append take_all nat_le_linear)
        with h have "list_all (\<lambda>c. \<not> (of_char c :: nat) < 0x80) cs" by simp
        from scan_string_high_bytes [OF this] obtain err where "scan_string cs = Inl err" by blast
        moreover have "scan_string (c # cs) = prepend (EncodeRune r) (scan_string cs)"
          using assms(2) d e by auto
        ultimately show ?thesis using assms(1) by simp
      qed
    qed
  qed
qed

lemma getu4_append:
  assumes "scan_string x = Inr y"
  shows "getu4 (x @ q) = getu4 x"
proof (cases x)
  case Nil
  then show ?thesis using assms by simp
next
  case (Cons b xs)
  show ?thesis
  proof (cases xs)
    case Nil
    show ?thesis
    proof (cases "b = backslash")
      case True
      then show ?thesis using assms Cons Nil by simp
    next
      case False
      then show ?thesis using Cons Nil by (cases q) (auto simp: getu4_def)
    qed
  next
    case c2: (Cons u rest)
    show ?thesis
    proof (cases "b = backslash \<and> u = CHR ''u''")
      case False
      then show ?thesis using Cons c2 by (auto simp: getu4_def)
    next
      case True
      then obtain rr where "hex4 4 0 rest = Inr rr"
        using assms Cons c2 by (cases "hex4 4 0 rest") auto
      from hex4_append [OF this] this show ?thesis using Cons c2 True
        by (simp add: getu4_def)
    qed
  qed
qed

lemma getu4_Some_append: "getu4 x = Some v \<Longrightarrow> getu4 (x @ q) = Some v \<and> 6 \<le> length x"
proof -
  assume a: "getu4 x = Some v"
  then obtain b u rest where x: "x = b # u # rest" "b = backslash" "u = CHR ''u''"
    by (auto simp: getu4_def split: list.splits if_splits)
  with a have "hex4 4 0 rest = Inr v" by (auto simp: getu4_def split: sum.splits)
  from hex4_append [OF this, of q] x show ?thesis by (simp add: getu4_def)
qed

lemma DecodeRuneInString_size: "DecodeRuneInString s = (r, n) \<Longrightarrow> n \<le> length s"
proof -
  assume "DecodeRuneInString s = (r, n)"
  then have "DecodeRune_bytes (map of_char (take 4 s)) = (r, n)" by (simp add: DecodeRuneInString_def)
  from DecodeRune_bytes_size [OF this] show ?thesis by simp
qed

lemma scan_string_append:
  "scan_string p = Inr (s, r) \<Longrightarrow> scan_string (p @ q) = Inr (s, r @ q)"
proof (induction "length p" arbitrary: p s r rule: less_induct)
  case less
  have IH: "scan_string (p' @ q) = Inr (s', r' @ q)"
    if "scan_string p' = Inr (s', r')" "length p' < length p" for p' s' r'
    using less.hyps [OF that(2) that(1)] .
  have IHp: "prepend pre (scan_string (p' @ q)) = Inr (s, r @ q)"
    if "prepend pre (scan_string p') = Inr (s, r)" "length p' < length p" for pre p'
  proof -
    from prepend_eq_Inr2 [OF that(1)] obtain s' where "scan_string p' = Inr (s', r)" "s = pre @ s'"
      by blast
    with IH [OF this(1) that(2)] show ?thesis by simp
  qed
  show ?case
  proof (cases p)
    case Nil
    then show ?thesis using less.prems by simp
  next
    case (Cons c cs)
    show ?thesis
    proof (cases "c = dquote")
      case True
      then show ?thesis using less.prems Cons by auto
    next
      case nq: False
      show ?thesis
      proof (cases "c = backslash")
        case True
        show ?thesis
        proof (cases cs)
          case Nil
          then show ?thesis using less.prems Cons True by simp
        next
          case c2: (Cons e es)
          have les: "length es < length p" using Cons c2 by simp
          show ?thesis
          proof (cases "e = CHR ''u''")
            case False
            then obtain d where d: "simple_escape e = Some d"
              using less.prems Cons True c2 by (cases "simple_escape e") auto
            then have "prepend [d] (scan_string es) = Inr (s, r)"
              using less.prems Cons True c2 False by simp
            from IHp [OF this les] show ?thesis using Cons True c2 False d by simp
          next
            case u: True
            obtain rr where h: "hex4 4 0 es = Inr rr"
              using less.prems Cons True c2 u by (cases "hex4 4 0 es") auto
            note h' = hex4_append [OF h, of q]
            define x where "x = drop 4 es"
            have dx: "drop 4 (es @ q) = x @ q" using h' by (simp add: x_def)
            have lx: "length x < length p" using Cons c2 by (simp add: x_def)
            show ?thesis
            proof (cases "IsSurrogate rr")
              case False
              then have "prepend (EncodeRune rr) (scan_string x) = Inr (s, r)"
                using less.prems Cons True c2 u h by (simp add: x_def)
              from IHp [OF this lx] show ?thesis using Cons True c2 u h' dx False by simp
            next
              case sur: True
              show ?thesis
              proof (cases "utf16_DecodeRune rr (getu4 x) \<noteq> RuneError")
                case pair: True
                then obtain v where g: "getu4 x = Some v"
                  by (cases "getu4 x") (auto simp: utf16_DecodeRune_def)
                note g' = getu4_Some_append [OF g, of q]
                have "6 \<le> length es - 4" using g' by (simp add: x_def)
                then have "10 \<le> length es" by arith
                then have d10: "drop 10 (es @ q) = drop 10 es @ q" by simp
                have l10: "length (drop 10 es) < length p" using Cons c2 by simp
                have "prepend (EncodeRune (utf16_DecodeRune rr (getu4 x))) (scan_string (drop 10 es)) = Inr (s, r)"
                  using less.prems Cons True c2 u h sur pair by (simp add: x_def)
                from IHp [OF this l10] show ?thesis
                  using Cons True c2 u h' dx sur pair g g' d10 by simp
              next
                case nopair: False
                then have a: "prepend (EncodeRune RuneError) (scan_string x) = Inr (s, r)"
                  using less.prems Cons True c2 u h sur by (simp add: x_def)
                then obtain y where "scan_string x = Inr y"
                  using prepend_eq_Inr2 by blast
                from getu4_append [OF this, of q] have g: "getu4 (x @ q) = getu4 x" .
                from IHp [OF a lx] show ?thesis
                  using Cons True c2 u h' dx sur nopair g by simp
              qed
            qed
          qed
        qed
      next
        case nb: False
        show ?thesis
        proof (cases "(of_char c :: nat) < 0x80")
          case True
          then have "\<not> (of_char c :: nat) < 0x20" "prepend [c] (scan_string cs) = Inr (s, r)"
            using less.prems Cons nq nb by (auto split: if_splits)
          with IHp [OF this(2)] show ?thesis using Cons nq nb True by simp
        next
          case False
          obtain rn n where d: "DecodeRuneInString (c # cs) = (rn, n)"
            by (cases "DecodeRuneInString (c # cs)")
          have sc: "scan_string (c # cs) = Inr (s, r)" using less.prems Cons by simp
          have d': "DecodeRuneInString (c # cs @ q) = (rn, n)"
            using DecodeRuneInString_append [OF sc False] d by simp
          have n: "n - 1 \<le> length cs" using DecodeRuneInString_size [OF d] by simp
          have dr: "drop (n - 1) (cs @ q) = drop (n - 1) cs @ q" using n by simp
          have l: "length (drop (n - 1) cs) < length p" using Cons by simp
          have "prepend (EncodeRune rn) (scan_string (drop (n - 1) cs)) = Inr (s, r)"
            using sc False nq nb d by (auto split: if_splits)
          from IHp [OF this l] show ?thesis using Cons nq nb False d' dr by simp
        qed
      qed
    qed
  qed
qed

lemma parse_append:
  "(\<forall>dp p v r. parse_value n dp p = Inr (v, r) \<longrightarrow> (r \<noteq> [] \<or> \<not> is_JNumber v)
       \<longrightarrow> parse_value (n + k) dp (p @ q) = Inr (v, r @ q))
   \<and> (\<forall>dp p acc vs r. parse_elems n dp acc p = Inr (vs, r)
       \<longrightarrow> parse_elems (n + k) dp acc (p @ q) = Inr (vs, r @ q))
   \<and> (\<forall>dp p acc ms r. parse_members n dp acc p = Inr (ms, r)
       \<longrightarrow> parse_members (n + k) dp acc (p @ q) = Inr (ms, r @ q))"
proof (induction n)
  case 0
  show ?case by (simp add: parse_simps)
next
  case (Suc n)
  then have IHv: "\<And>dp p v r. parse_value n dp p = Inr (v, r) \<Longrightarrow> r \<noteq> [] \<or> \<not> is_JNumber v
        \<Longrightarrow> parse_value (n + k) dp (p @ q) = Inr (v, r @ q)"
    and IHe: "\<And>dp p acc vs r. parse_elems n dp acc p = Inr (vs, r)
        \<Longrightarrow> parse_elems (n + k) dp acc (p @ q) = Inr (vs, r @ q)"
    and IHm: "\<And>dp p acc ms r. parse_members n dp acc p = Inr (ms, r)
        \<Longrightarrow> parse_members (n + k) dp acc (p @ q) = Inr (ms, r @ q)"
    by blast+
  have v: "parse_value (Suc n + k) dp (p @ q) = Inr (v, r @ q)"
    if a: "parse_value (Suc n) dp p = Inr (v, r)" and c: "r \<noteq> [] \<or> \<not> is_JNumber v" for dp p v r
  proof (cases "skip_space p")
    case Nil
    then show ?thesis using a by (simp add: parse_simps)
  next
    case (Cons c cs)
    note sp = skip_space_append [OF Cons, of q]
    consider (obj) "c = CHR ''{''" | (arr) "c \<noteq> CHR ''{''" "c = CHR ''[''"
      | (str) "c \<noteq> CHR ''{''" "c \<noteq> CHR ''[''" "c = dquote"
      | (num) "c \<noteq> CHR ''{''" "c \<noteq> CHR ''[''" "c \<noteq> dquote" "c = CHR ''-'' \<or> isDigit c"
      | (lit) "c \<noteq> CHR ''{''" "c \<noteq> CHR ''[''" "c \<noteq> dquote" "\<not> (c = CHR ''-'' \<or> isDigit c)"
      by blast
    then show ?thesis
    proof cases
      case obj
      have nd: "\<not> maxNestingDepth \<le> dp"
        using a Cons obj by (simp add: parse_simps split: if_splits)
      show ?thesis
      proof (cases "skip_space cs")
        case Nil
        then show ?thesis using a Cons obj nd by (simp add: parse_simps)
      next
        case c2: (Cons d ds)
        note sp2 = skip_space_append [OF c2, of q]
        show ?thesis
        proof (cases "d = CHR ''}''")
          case True
          then show ?thesis using a Cons obj nd c2 sp sp2 by (auto simp: parse_simps)
        next
          case False
          then obtain ms where m: "parse_members n (Suc dp) [] (d # ds) = Inr (ms, r)" "v = JObject ms"
            using a Cons obj nd c2 by (auto simp: parse_simps split: sum.splits)
          from IHm [OF m(1)] show ?thesis using Cons obj nd c2 sp sp2 False m(2)
            by (simp add: parse_simps)
        qed
      qed
    next
      case arr
      have nd: "\<not> maxNestingDepth \<le> dp"
        using a Cons arr by (simp add: parse_simps split: if_splits)
      show ?thesis
      proof (cases "skip_space cs")
        case Nil
        then show ?thesis using a Cons arr nd by (simp add: parse_simps)
      next
        case c2: (Cons d ds)
        note sp2 = skip_space_append [OF c2, of q]
        show ?thesis
        proof (cases "d = CHR '']''")
          case True
          then show ?thesis using a Cons arr nd c2 sp sp2 by (auto simp: parse_simps)
        next
          case False
          then obtain vs where m: "parse_elems n (Suc dp) [] (d # ds) = Inr (vs, r)" "v = JArray vs"
            using a Cons arr nd c2 by (auto simp: parse_simps split: sum.splits)
          from IHe [OF m(1)] show ?thesis using Cons arr nd c2 sp sp2 False m(2)
            by (simp add: parse_simps)
        qed
      qed
    next
      case str
      then obtain s where s: "scan_string cs = Inr (s, r)" "v = JString s"
        using a Cons by (auto simp: parse_simps split: sum.splits)
      from scan_string_append [OF s(1), of q] show ?thesis using Cons str sp s(2)
        by (simp add: parse_simps)
    next
      case num
      then obtain lit where s: "scan_number (c # cs) = Inr (lit, r)" "v = JNumber lit"
        using a Cons by (auto simp: parse_simps split: sum.splits)
      then have "r \<noteq> []" using c by simp
      from scan_number_append [OF s(1) this, of q] show ?thesis using Cons num sp s(2)
        by (simp add: parse_simps)
    next
      case lit
      then obtain l w where s: "scan_literal l w cs = Inr (v, r)"
        "parse_value (Suc n + k) dp (p @ q) = scan_literal l w (cs @ q)"
        using a Cons sp by (auto simp: parse_simps split: if_splits)
      from scan_literal_append [OF s(1), of q] s(2) show ?thesis by simp
    qed
  qed
  have e: "parse_elems (Suc n + k) dp acc (p @ q) = Inr (vs, r @ q)"
    if a: "parse_elems (Suc n) dp acc p = Inr (vs, r)" for dp p acc vs r
  proof -
    from a obtain w r1 where w: "parse_value n dp p = Inr (w, r1)"
      by (auto simp: parse_simps split: sum.splits)
    show ?thesis
    proof (cases "skip_space r1")
      case Nil
      then show ?thesis using a w by (simp add: parse_simps)
    next
      case (Cons c cs)
      note sp = skip_space_append [OF Cons, of q]
      have "r1 \<noteq> []" using Cons by auto
      then have w': "parse_value (n + k) dp (p @ q) = Inr (w, r1 @ q)" using IHv [OF w] by simp
      show ?thesis
      proof (cases "c = CHR '',''")
        case True
        then have "parse_elems n dp (acc @ [w]) cs = Inr (vs, r)"
          using a w Cons by (simp add: parse_simps)
        from IHe [OF this] show ?thesis using w' sp True by (simp add: parse_simps)
      next
        case False
        then show ?thesis using a w Cons w' sp by (auto simp: parse_simps split: if_splits)
      qed
    qed
  qed
  have m: "parse_members (Suc n + k) dp acc (p @ q) = Inr (ms, r @ q)"
    if a: "parse_members (Suc n) dp acc p = Inr (ms, r)" for dp p acc ms r
  proof (cases "skip_space p")
    case Nil
    then show ?thesis using a by (simp add: parse_simps)
  next
    case (Cons c cs)
    note sp = skip_space_append [OF Cons, of q]
    from a Cons have dq: "c = dquote" by (auto simp: parse_simps split: if_splits)
    from a Cons dq obtain key r1 where ks: "scan_string cs = Inr (key, r1)"
      by (auto simp: parse_simps split: sum.splits)
    note ks' = scan_string_append [OF ks, of q]
    show ?thesis
    proof (cases "skip_space r1")
      case Nil
      then show ?thesis using a Cons dq ks by (simp add: parse_simps)
    next
      case c2: (Cons d ds)
      note sp2 = skip_space_append [OF c2, of q]
      from a Cons dq ks c2 have col: "d = CHR '':''" by (auto simp: parse_simps split: if_splits)
      from a Cons dq ks c2 col obtain w r2 where w: "parse_value n dp ds = Inr (w, r2)"
        by (auto simp: parse_simps split: sum.splits)
      show ?thesis
      proof (cases "skip_space r2")
        case Nil
        then show ?thesis using a Cons dq ks c2 col w by (simp add: parse_simps)
      next
        case c3: (Cons x xs)
        note sp3 = skip_space_append [OF c3, of q]
        have "r2 \<noteq> []" using c3 by auto
        then have w': "parse_value (n + k) dp (ds @ q) = Inr (w, r2 @ q)" using IHv [OF w] by simp
        show ?thesis
        proof (cases "x = CHR '',''")
          case True
          then have "parse_members n dp (acc @ [(key, w)]) xs = Inr (ms, r)"
            using a Cons dq ks c2 col w c3 by (simp add: parse_simps)
          from IHm [OF this] show ?thesis using sp dq ks' sp2 col w' sp3 True
            by (simp add: parse_simps)
        next
          case False
          then show ?thesis using a Cons dq ks c2 col w c3 sp ks' sp2 w' sp3
            by (auto simp: parse_simps split: if_splits)
        qed
      qed
    qed
  qed
  show ?case using v e m by blast
qed

lemma Decode_value_append:
  assumes "Decode_value p = Inr j" and "\<not> is_JNumber j"
  shows "Decode_value (p @ q) = Inr j"
proof -
  from assms(1) have ns: "skip_space p \<noteq> []"
    by (auto simp: Decode_value_def split: if_splits)
  then obtain c cs where "skip_space p = c # cs" by (cases "skip_space p") auto
  from skip_space_append [OF this, of q] have ns': "skip_space (p @ q) \<noteq> []" by simp
  from assms(1) ns obtain r where r: "parse_value (2 * length p + 2) 0 p = Inr (j, r)"
    by (cases "parse_value (2 * length p + 2) 0 p") (auto simp: Decode_value_def)
  have "parse_value (2 * length p + 2 + 2 * length q) 0 (p @ q) = Inr (j, r @ q)"
    using parse_append [of "2 * length p + 2" "2 * length q" q] r assms(2) by blast
  moreover have "2 * length p + 2 + 2 * length q = 2 * length (p @ q) + 2" by simp
  ultimately show ?thesis using ns' by (simp add: Decode_value_def)
qed

lemma unmarshal_not_number:
  "unmarshal_OAuthApp j a = Inr app \<Longrightarrow> \<not> is_JNumber j"
  "unmarshal_map j = Inr apps \<Longrightarrow> \<not> is_JNumber j"
  "unmarshal_list j = Inr l \<Longrightarrow> \<not> is_JNumber j"
  by (cases j; simp add: unmarshal_OAuthApp_def unmarshal_map_def unmarshal_list_def)+

text \<open>
  The decoder reads the first value of the stream and nothing after it: what a
  deserializer accepts, it accepts with any bytes appended.
\<close>

lemma Decode_ignores_what_follows:
  "Decode_OAuthApp data = Inr app \<Longrightarrow> Decode_OAuthApp (data @ t) = Inr app"
  "Decode_map data = Inr apps \<Longrightarrow> Decode_map (data @ t) = Inr apps"
  "Decode_list data = Inr l \<Longrightarrow> Decode_list (data @ t) = Inr l"
proof -
  show "Decode_OAuthApp (data @ t) = Inr app" if a: "Decode_OAuthApp data = Inr app"
  proof -
    from a obtain j where j: "Decode_value data = Inr j" "unmarshal_OAuthApp j zero_OAuthApp = Inr app"
      by (auto simp: Decode_OAuthApp_def split: sum.splits)
    from Decode_value_append [OF j(1) unmarshal_not_number(1) [OF j(2)], of t] j(2)
    show ?thesis by (simp add: Decode_OAuthApp_def)
  qed
  show "Decode_map (data @ t) = Inr apps" if a: "Decode_map data = Inr apps"
  proof -
    from a obtain j where j: "Decode_value data = Inr j" "unmarshal_map j = Inr apps"
      by (auto simp: Decode_map_def split: sum.splits)
    from Decode_value_append [OF j(1) unmarshal_not_number(2) [OF j(2)], of t] j(2)
    show ?thesis by (simp add: Decode_map_def)
  qed
  show "Decode_list (data @ t) = Inr l" if a: "Decode_list data = Inr l"
  proof -
    from a obtain j where j: "Decode_value data = Inr j" "unmarshal_list j = Inr l"
      by (auto simp: Decode_list_def split: sum.splits)
    from Decode_value_append [OF j(1) unmarshal_not_number(3) [OF j(2)], of t] j(2)
    show ?thesis by (simp add: Decode_list_def)
  qed
qed




subsection \<open>Errors of the deserializers\<close>

















lemma Decode_value_empty_object: "Decode_value ''{}'' = Inr (JObject [])"
  by (simp add: Decode_value_def parse_simps isSpace_def eval_nat_numeral)




subsection \<open>Deserialization and validation\<close>

text \<open>
  C10. Deserialization does not validate: the empty object is decoded to the zero
  record (empty id and secret, zero timestamps, no callback URL), which \<open>IsValid\<close>
  refuses for its id, whatever the URL check is.
\<close>

theorem FromJson_does_not_validate:
  "OAuthAppFromJson ''{}'' = Some zero_OAuthApp
   \<and> Id zero_OAuthApp = '''' \<and> ClientSecret zero_OAuthApp = ''''
   \<and> CreateAt zero_OAuthApp = 0 \<and> UpdateAt zero_OAuthApp = 0
   \<and> elems (CallbackUrls zero_OAuthApp) = []
   \<and> IsValid isValidHttpUrl zero_OAuthApp
       = Some (NewLocAppError ''OAuthApp.IsValid'' ''model.oauth.is_valid.app_id.app_error'' '''')"
  by (simp add: OAuthAppFromJson_def Decode_OAuthApp_def Decode_value_empty_object
      unmarshal_OAuthApp_def zero_OAuthApp_def IsValid_def)

end
